theory Spec2Isabelle
  imports Main "HOL-Library.Option_ord"
begin

section \<open>Values thrown by the program\<close>

text \<open>
  A thrown JavaScript value. \<open>PrismaClientKnownRequestError code message\<close> is the
  Prisma class tested by \<open>isPrismaError\<close>; it extends \<open>Error\<close>. \<open>Error message\<close> is
  every other instance of \<open>Error\<close> (including Prisma's other error classes), and
  \<open>Thrown\<close> is a thrown value that is not an \<open>Error\<close>.
\<close>

datatype js_error =
    PrismaClientKnownRequestError string string
  | Error string
  | Thrown string

fun isPrismaError :: "js_error \<Rightarrow> bool" where
  "isPrismaError (PrismaClientKnownRequestError c m) = True"
| "isPrismaError (Error m) = False"
| "isPrismaError (Thrown v) = False"

fun instanceofError :: "js_error \<Rightarrow> bool" where
  "instanceofError (PrismaClientKnownRequestError c m) = True"
| "instanceofError (Error m) = True"
| "instanceofError (Thrown v) = False"

fun message :: "js_error \<Rightarrow> string" where
  "message (PrismaClientKnownRequestError c m) = m"
| "message (Error m) = m"
| "message (Thrown v) = []"

text \<open>\<open>handlePrismaError\<close> of \<open>lib/database/error-handler.ts\<close>, on the error's code.\<close>

definition handlePrismaError :: "string \<Rightarrow> string \<Rightarrow> js_error" where
  "handlePrismaError c ctxt =
     (if c = ''P2002'' then Error (ctxt @ '': Duplicate entry found'')
      else if c = ''P2025'' then Error (ctxt @ '': Record not found'')
      else if c = ''P2003'' then Error (ctxt @ '': Foreign key constraint failed'')
      else Error (ctxt @ '': Database error ('' @ c @ '')''))"

text \<open>
  \<open>handleDatabaseError\<close> never returns: the value computed here is the one it throws.
\<close>

fun handleDatabaseError :: "js_error \<Rightarrow> string \<Rightarrow> js_error" where
  "handleDatabaseError (PrismaClientKnownRequestError c m) operation =
     handlePrismaError c (''Failed to '' @ operation)"
| "handleDatabaseError (Error m) operation =
     Error (''Failed to '' @ operation @ '': '' @ m)"
| "handleDatabaseError (Thrown v) operation =
     Error (''Failed to '' @ operation @ '': '' @ ''Unknown database error'')"

text \<open>
  \<open>wrapDatabaseOperation\<close>: the operation's result is passed through, and whatever
  it throws is replaced by what \<open>handleDatabaseError\<close> throws.
\<close>

definition wrapDatabaseOperation :: "js_error + 'a \<Rightarrow> string \<Rightarrow> js_error + 'a" where
  "wrapDatabaseOperation r operationName =
     (case r of Inl e \<Rightarrow> Inl (handleDatabaseError e operationName) | Inr v \<Rightarrow> Inr v)"


section \<open>The data model\<close>

text \<open>
  A \<open>Date\<close> is its number of milliseconds since the epoch. An optional field is an
  \<open>option\<close>. The rows hold the fields the code reads and writes.
\<close>

record RssFeed =
  id' :: string
  userId :: string
  url :: string
  title :: "string option"
  lastFetched :: "int option"
  isActive :: bool

record ArticleCreateData =
  feedId :: string
  guid :: string
  title :: string
  link :: string
  content :: "string option"
  summary :: "string option"
  pubDate :: int
  author :: "string option"
  categories :: "string list option"
  imageUrl :: "string option"

record RssArticle =
  feedId :: string
  guid :: string
  sourceFeedIds :: "string list"
  title :: string
  link :: string
  content :: "string option"
  summary :: "string option"
  pubDate :: int
  author :: "string option"
  categories :: "string list"
  imageUrl :: "string option"

record BulkOperationResult =
  created :: nat
  skipped :: nat
  errors :: nat

text \<open>
  The database behind the Prisma client: the two collections, and the failures the
  engine is going to answer with. Every query takes the head of \<open>faults\<close>: \<open>None\<close> (or
  an exhausted list) lets the query run, \<open>Some e\<close> makes it throw \<open>e\<close> and leaves
  the collections as they were.
\<close>

record prisma =
  rssFeed :: "RssFeed list"
  rssArticle :: "RssArticle list"
  faults :: "js_error option list"

definition query :: "prisma \<Rightarrow> js_error option \<times> prisma" where
  "query db = (case faults db of [] \<Rightarrow> (None, db) | f # fs \<Rightarrow> (f, db\<lparr>faults := fs\<rparr>))"


section \<open>Deduplicating upsert (actions/rss-article)\<close>

text \<open>The \<open>create\<close> branch of the upsert: \<open>categories || []\<close>, and the source set \<open>[feedId]\<close>.\<close>

definition createRow :: "ArticleCreateData \<Rightarrow> RssArticle" where
  "createRow d =
     \<lparr> RssArticle.feedId = ArticleCreateData.feedId d,
       guid = ArticleCreateData.guid d,
       sourceFeedIds = [ArticleCreateData.feedId d],
       title = ArticleCreateData.title d,
       link = ArticleCreateData.link d,
       content = ArticleCreateData.content d,
       summary = ArticleCreateData.summary d,
       pubDate = ArticleCreateData.pubDate d,
       author = ArticleCreateData.author d,
       categories = (case ArticleCreateData.categories d of None \<Rightarrow> [] | Some cs \<Rightarrow> cs),
       imageUrl = ArticleCreateData.imageUrl d \<rparr>"

text \<open>The \<open>update\<close> branch: \<open>sourceFeedIds: { push: feedId }\<close>.\<close>

definition pushSource :: "string \<Rightarrow> RssArticle \<Rightarrow> RssArticle" where
  "pushSource f r = r\<lparr>sourceFeedIds := sourceFeedIds r @ [f]\<rparr>"

text \<open>
  \<open>prisma.rssArticle.upsert\<close> with \<open>where: { guid }\<close>: the row with that guid is
  updated, and a row is created when there is none. \<open>upsertRows\<close> is the collection
  afterwards, \<open>upsertedRow\<close> the row the call returns.
\<close>

fun upsertRows :: "ArticleCreateData \<Rightarrow> RssArticle list \<Rightarrow> RssArticle list" where
  "upsertRows d [] = [createRow d]"
| "upsertRows d (r # rs) =
     (if RssArticle.guid r = ArticleCreateData.guid d
      then pushSource (ArticleCreateData.feedId d) r # rs
      else r # upsertRows d rs)"

fun upsertedRow :: "ArticleCreateData \<Rightarrow> RssArticle list \<Rightarrow> RssArticle" where
  "upsertedRow d [] = createRow d"
| "upsertedRow d (r # rs) =
     (if RssArticle.guid r = ArticleCreateData.guid d
      then pushSource (ArticleCreateData.feedId d) r
      else upsertedRow d rs)"

definition rssArticle_upsert ::
  "prisma \<Rightarrow> ArticleCreateData \<Rightarrow> (js_error + RssArticle) \<times> prisma" where
  "rssArticle_upsert db d =
     (case query db of
        (Some e, db') \<Rightarrow> (Inl e, db')
      | (None, db') \<Rightarrow>
          (Inr (upsertedRow d (rssArticle db')),
           db'\<lparr>rssArticle := upsertRows d (rssArticle db')\<rparr>))"

definition createRssArticle ::
  "prisma \<Rightarrow> ArticleCreateData \<Rightarrow> (js_error + RssArticle) \<times> prisma" where
  "createRssArticle db d =
     (case rssArticle_upsert db d of
        (r, db') \<Rightarrow> (wrapDatabaseOperation r ''create RSS article'', db'))"

text \<open>
  \<open>bulkCreateRssArticles\<close>: the \<open>for\<close> loop over the batch, with the counters as
  accumulator. The \<open>catch\<close> tests the caught value with \<open>isPrismaError\<close> and its code.
\<close>

fun code :: "js_error \<Rightarrow> string option" where
  "code (PrismaClientKnownRequestError c m) = Some c"
| "code (Error m) = None"
| "code (Thrown v) = None"

fun bulkLoop ::
  "prisma \<Rightarrow> ArticleCreateData list \<Rightarrow> BulkOperationResult \<Rightarrow> BulkOperationResult \<times> prisma" where
  "bulkLoop db [] results = (results, db)"
| "bulkLoop db (article # articles) results =
     (case createRssArticle db article of
        (Inr row, db') \<Rightarrow> bulkLoop db' articles (results\<lparr>created := created results + 1\<rparr>)
      | (Inl e, db') \<Rightarrow>
          (if isPrismaError e \<and> code e = Some ''P2002''
           then bulkLoop db' articles (results\<lparr>skipped := skipped results + 1\<rparr>)
           else bulkLoop db' articles (results\<lparr>errors := errors results + 1\<rparr>)))"

definition bulkCreateRssArticles ::
  "prisma \<Rightarrow> ArticleCreateData list \<Rightarrow> BulkOperationResult \<times> prisma" where
  "bulkCreateRssArticles db articles =
     bulkLoop db articles \<lparr>created = 0, skipped = 0, errors = 0\<rparr>"


section \<open>Windowed retrieval (actions/rss-article)\<close>

text \<open>
  \<open>orderBy: { field: "desc" }\<close>: a stable sort into non-increasing order of the
  field. On an optional field MongoDB orders \<open>null\<close> below every value, which is the
  order of \<open>option\<close> here (\<open>None < Some x\<close>), so that missing values come last.
\<close>

definition orderByDesc :: "('a \<Rightarrow> 'k::linorder) \<Rightarrow> 'a list \<Rightarrow> 'a list" where
  "orderByDesc f xs = rev (sort_key f (rev xs))"

text \<open>
  The selection \<open>{ id, title, url }\<close> of an article's feed, as the sibling queries
  of \<open>actions/rss-article.ts\<close> include it.
\<close>

record FeedSelect =
  id' :: string
  title :: "string option"
  url :: string

definition selectFeed :: "RssFeed \<Rightarrow> FeedSelect" where
  "selectFeed f = \<lparr> FeedSelect.id' = RssFeed.id' f, title = RssFeed.title f, url = RssFeed.url f \<rparr>"

record ArticleWithSourceCount = RssArticle +
  feed :: "FeedSelect option"
  sourceCount :: nat


text \<open>
  The \<open>where\<close> clause of \<open>getArticlesByFeedsAndDateRange\<close>:
  \<open>OR [feedId in feedIds, sourceFeedIds hasSome feedIds]\<close> and
  \<open>pubDate: { gte: startDate, lte: endDate }\<close>.
\<close>

definition matchesFeeds :: "string list \<Rightarrow> RssArticle \<Rightarrow> bool" where
  "matchesFeeds feedIds r =
     (RssArticle.feedId r \<in> set feedIds \<or> set (sourceFeedIds r) \<inter> set feedIds \<noteq> {})"

definition inWindow :: "int \<Rightarrow> int \<Rightarrow> RssArticle \<Rightarrow> bool" where
  "inWindow startDate endDate r =
     (startDate \<le> RssArticle.pubDate r \<and> RssArticle.pubDate r \<le> endDate)"

text \<open>
  Modelled from the spec: the constants \<open>ARTICLE_ORDER_BY_DATE_DESC\<close> and
  \<open>ARTICLE_WITH_FEED_INCLUDE\<close> of \<open>lib/database/prisma-helpers\<close> are not among the
  sources; the order is by publish date, descending, and the include is the feed's
  selection above.
\<close>

definition rssArticle_findMany ::
  "prisma \<Rightarrow> string list \<Rightarrow> int \<Rightarrow> int \<Rightarrow> nat \<Rightarrow> (js_error + RssArticle list) \<times> prisma" where
  "rssArticle_findMany db feedIds startDate endDate limit =
     (case query db of
        (Some e, db') \<Rightarrow> (Inl e, db')
      | (None, db') \<Rightarrow>
          (Inr (take limit (orderByDesc RssArticle.pubDate
             (filter (\<lambda>r. matchesFeeds feedIds r \<and> inWindow startDate endDate r)
                (rssArticle db')))), db'))"

definition withSourceCount :: "RssFeed list \<Rightarrow> RssArticle \<Rightarrow> ArticleWithSourceCount" where
  "withSourceCount fs article =
     RssArticle.extend article
       \<lparr> feed = map_option selectFeed (find (\<lambda>f. RssFeed.id' f = RssArticle.feedId article) fs),
         sourceCount = length (sourceFeedIds article) \<rparr>"

text \<open>The parameter \<open>limit\<close> is optional and defaults to 100.\<close>

definition getArticlesByFeedsAndDateRange ::
  "prisma \<Rightarrow> string list \<Rightarrow> int \<Rightarrow> int \<Rightarrow> nat option
     \<Rightarrow> (js_error + ArticleWithSourceCount list) \<times> prisma" where
  "getArticlesByFeedsAndDateRange db feedIds startDate endDate limit =
     (case rssArticle_findMany db feedIds startDate endDate
             (case limit of None \<Rightarrow> 100 | Some n \<Rightarrow> n) of
        (r, db') \<Rightarrow>
          (wrapDatabaseOperation (map_sum (\<lambda>e. e) (map (withSourceCount (rssFeed db'))) r)
             ''fetch articles by feeds and date range'', db'))"


section \<open>Freshness classification (lib/rss/feed-refresh)\<close>

definition CACHE_WINDOW :: int where
  "CACHE_WINDOW = 3 * 60 * 60 * 1000"

text \<open>\<open>prisma.rssFeed.findMany\<close> with \<open>where: { id: { in: feedIds } }\<close>.\<close>

definition rssFeed_findMany :: "prisma \<Rightarrow> string list \<Rightarrow> (js_error + RssFeed list) \<times> prisma" where
  "rssFeed_findMany db feedIds =
     (case query db of
        (Some e, db') \<Rightarrow> (Inl e, db')
      | (None, db') \<Rightarrow> (Inr (filter (\<lambda>f. RssFeed.id' f \<in> set feedIds) (rssFeed db')), db'))"

text \<open>
  \<open>prisma.rssFeed.findFirst\<close> with \<open>where: { url }\<close>, \<open>orderBy: { lastFetched: "desc" }\<close>
  and \<open>select: { lastFetched }\<close>: \<open>None\<close> when no feed has the url, else the selected
  field of the first row.
\<close>

definition rssFeed_findFirst :: "prisma \<Rightarrow> string \<Rightarrow> (js_error + int option option) \<times> prisma" where
  "rssFeed_findFirst db u =
     (case query db of
        (Some e, db') \<Rightarrow> (Inl e, db')
      | (None, db') \<Rightarrow>
          (Inr (case orderByDesc lastFetched (filter (\<lambda>f. RssFeed.url f = u) (rssFeed db')) of
                  [] \<Rightarrow> None
                | f # fs \<Rightarrow> Some (lastFetched f)), db'))"

text \<open>
  The body of the loop of \<open>getFeedsToRefresh\<close> after the query: whether the feed is
  pushed onto \<open>feedsToRefresh\<close>. The cache window is a parameter here;
  \<open>getFeedsToRefresh\<close> passes the constant.
\<close>

fun needsRefresh :: "int \<Rightarrow> int \<Rightarrow> int option option \<Rightarrow> bool" where
  "needsRefresh window now None = True"
| "needsRefresh window now (Some None) = True"
| "needsRefresh window now (Some (Some t)) = (now - t > window)"

fun refreshLoop ::
  "int \<Rightarrow> int \<Rightarrow> prisma \<Rightarrow> RssFeed list \<Rightarrow> string list \<Rightarrow> (js_error + string list) \<times> prisma" where
  "refreshLoop window now db [] feedsToRefresh = (Inr feedsToRefresh, db)"
| "refreshLoop window now db (f # fs) feedsToRefresh =
     (case rssFeed_findFirst db (RssFeed.url f) of
        (Inl e, db') \<Rightarrow> (Inl e, db')
      | (Inr mostRecentFetch, db') \<Rightarrow>
          refreshLoop window now db' fs
            (if needsRefresh window now mostRecentFetch
             then feedsToRefresh @ [RssFeed.id' f] else feedsToRefresh))"

definition getFeedsToRefreshWithin ::
  "int \<Rightarrow> int \<Rightarrow> prisma \<Rightarrow> string list \<Rightarrow> (js_error + string list) \<times> prisma" where
  "getFeedsToRefreshWithin window now db feedIds =
     (case rssFeed_findMany db feedIds of
        (Inl e, db') \<Rightarrow> (Inl e, db')
      | (Inr feeds, db') \<Rightarrow> refreshLoop window now db' feeds [])"

definition getFeedsToRefresh ::
  "int \<Rightarrow> prisma \<Rightarrow> string list \<Rightarrow> (js_error + string list) \<times> prisma" where
  "getFeedsToRefresh now db feedIds = getFeedsToRefreshWithin CACHE_WINDOW now db feedIds"


section \<open>Syndication parser (lib/rss-parser)\<close>

text \<open>
  An item as the \<open>rss-parser\<close> library delivers it; every field may be missing.
  \<open>contentEncoded\<close> is the field \<open>content:encoded\<close>, and \<open>image\<close> of the parsed
  document is \<open>feed.image?.url\<close>.
\<close>

record Enclosure =
  url :: string
  type' :: "string option"

record Item =
  guid :: "string option"
  link :: "string option"
  title :: "string option"
  isoDate :: "string option"
  pubDate :: "string option"
  content :: "string option"
  contentEncoded :: "string option"
  description :: "string option"
  summary :: "string option"
  contentSnippet :: "string option"
  creator :: "string option"
  author :: "string option"
  categories :: "string list option"
  enclosure :: "Enclosure option"

record ParserOutput =
  items :: "Item list"
  title :: "string option"
  description :: "string option"
  link :: "string option"
  image :: "string option"
  language :: "string option"

record FeedMetadata =
  title :: string
  description :: "string option"
  link :: "string option"
  imageUrl :: "string option"
  language :: "string option"

record ArticleData =
  guid :: string
  title :: string
  link :: string
  content :: "string option"
  summary :: "string option"
  pubDate :: int
  author :: "string option"
  categories :: "string list"
  imageUrl :: "string option"

text \<open>
  What the program takes from outside: the document fetcher \<open>parser.parseURL\<close>, the
  \<open>Date\<close> constructor on a string (the time it denotes; a string that gives an invalid
  \<open>Date\<close> is left out), the clock read by \<open>new Date()\<close>, taken to stand still
  during one request, and the order in which the runtime resumes the concurrent
  refreshes (see \<open>allSettled\<close> below).
\<close>

record env =
  parseURL :: "string \<Rightarrow> js_error + ParserOutput"
  newDate :: "string \<Rightarrow> int"
  now :: int
  schedule :: "nat list"

text \<open>
  JavaScript's \<open>a || b\<close> on optional strings: \<open>undefined\<close> and the empty string are
  falsy. \<open>orElse\<close> is the same with a string as last alternative, and \<open>interpolate\<close>
  is \<open>${x}\<close> in a template literal.
\<close>

fun truthy :: "string option \<Rightarrow> bool" where
  "truthy None = False"
| "truthy (Some s) = (s \<noteq> [])"

definition js_or :: "string option \<Rightarrow> string option \<Rightarrow> string option" where
  "js_or a b = (if truthy a then a else b)"

fun orElse :: "string option \<Rightarrow> string \<Rightarrow> string" where
  "orElse None d = d"
| "orElse (Some s) d = (if s = [] then d else s)"

fun interpolate :: "string option \<Rightarrow> string" where
  "interpolate None = ''undefined''"
| "interpolate (Some s) = s"

definition startsWith :: "string \<Rightarrow> string \<Rightarrow> bool" where
  "startsWith s p = (take (length p) s = p)"

definition extractFeedMetadata :: "ParserOutput \<Rightarrow> FeedMetadata" where
  "extractFeedMetadata f =
     \<lparr> FeedMetadata.title = orElse (ParserOutput.title f) ''Untitled Feed'',
       description = ParserOutput.description f,
       link = ParserOutput.link f,
       imageUrl = image f,
       language = ParserOutput.language f \<rparr>"

text \<open>The identity key of an item: \<open>item.guid || item.link || `${feedId}-${item.title}`\<close>.\<close>

definition extractGuid :: "string \<Rightarrow> Item \<Rightarrow> string" where
  "extractGuid fid item =
     orElse (Item.guid item)
       (orElse (Item.link item) (fid @ ''-'' @ interpolate (Item.title item)))"

text \<open>
  The condition \<open>x ? \<dots> : \<dots>\<close> on an optional string: \<open>whenTruthy x\<close> is the string
  when it is there and not empty.
\<close>

definition whenTruthy :: "string option \<Rightarrow> string option" where
  "whenTruthy a = (if truthy a then a else None)"

definition extractPubDate :: "env \<Rightarrow> Item \<Rightarrow> int" where
  "extractPubDate ev item =
     (case whenTruthy (isoDate item) of
        Some s \<Rightarrow> newDate ev s
      | None \<Rightarrow>
          (case whenTruthy (Item.pubDate item) of
             Some s \<Rightarrow> newDate ev s
           | None \<Rightarrow> now ev))"

definition extractImageUrl :: "Item \<Rightarrow> string option" where
  "extractImageUrl item =
     (case enclosure item of
        None \<Rightarrow> None
      | Some e \<Rightarrow>
          (if Enclosure.url e \<noteq> [] \<and>
              (case type' e of None \<Rightarrow> False | Some t \<Rightarrow> startsWith t ''image/'')
           then Some (Enclosure.url e) else None))"

definition extractArticle :: "env \<Rightarrow> string \<Rightarrow> Item \<Rightarrow> ArticleData" where
  "extractArticle ev fid item =
     \<lparr> ArticleData.guid = extractGuid fid item,
       title = orElse (Item.title item) ''Untitled'',
       link = orElse (Item.link item) [],
       content = js_or (js_or (js_or (Item.content item) (contentEncoded item))
                   (Item.description item)) (Item.summary item),
       summary = js_or (js_or (contentSnippet item) (Item.description item)) (Item.summary item),
       pubDate = extractPubDate ev item,
       author = js_or (creator item) (Item.author item),
       categories = (case Item.categories item of None \<Rightarrow> [] | Some cs \<Rightarrow> cs),
       imageUrl = extractImageUrl item \<rparr>"

definition extractArticles :: "env \<Rightarrow> ParserOutput \<Rightarrow> string \<Rightarrow> ArticleData list" where
  "extractArticles ev f fid = map (extractArticle ev fid) (items f)"

definition errorText :: "js_error \<Rightarrow> string" where
  "errorText e = (if instanceofError e then message e else ''Unknown error'')"

definition parseFeedUrl :: "env \<Rightarrow> string \<Rightarrow> js_error + ParserOutput" where
  "parseFeedUrl ev u =
     (case parseURL ev u of
        Inl e \<Rightarrow> Inl (Error (''Failed to fetch or parse RSS feed: '' @ errorText e))
      | Inr f \<Rightarrow> Inr f)"

record ParsedFeed =
  metadata :: FeedMetadata
  articles :: "ArticleData list"
  itemCount :: nat

definition fetchAndParseFeed :: "env \<Rightarrow> string \<Rightarrow> string \<Rightarrow> js_error + ParsedFeed" where
  "fetchAndParseFeed ev u fid =
     (case parseFeedUrl ev u of
        Inl e \<Rightarrow> Inl e
      | Inr f \<Rightarrow>
          Inr \<lparr> metadata = extractFeedMetadata f,
                articles = extractArticles ev f fid,
                itemCount = length (items f) \<rparr>)"


section \<open>Refreshing one feed (actions/rss-fetch, actions/rss-feed)\<close>

definition rssFeed_findUnique :: "prisma \<Rightarrow> string \<Rightarrow> (js_error + RssFeed option) \<times> prisma" where
  "rssFeed_findUnique db i =
     (case query db of
        (Some e, db') \<Rightarrow> (Inl e, db')
      | (None, db') \<Rightarrow> (Inr (find (\<lambda>f. RssFeed.id' f = i) (rssFeed db')), db'))"

text \<open>
  \<open>updateFeedLastFetched\<close>: \<open>prisma.rssFeed.update\<close> throws (code \<open>P2025\<close>) when no
  feed has the id; whatever is thrown, the \<open>catch\<close> throws its own error. The updated
  feed it returns is not used by its caller and is left out.
\<close>

definition updateFeedLastFetched :: "env \<Rightarrow> prisma \<Rightarrow> string \<Rightarrow> (js_error + unit) \<times> prisma" where
  "updateFeedLastFetched ev db i =
     (case query db of
        (Some e, db') \<Rightarrow> (Inl (Error ''Failed to update feed timestamp in database''), db')
      | (None, db') \<Rightarrow>
          (if find (\<lambda>f. RssFeed.id' f = i) (rssFeed db') = None
           then (Inl (Error ''Failed to update feed timestamp in database''), db')
           else (Inr (),
                 db'\<lparr>rssFeed := map (\<lambda>f. if RssFeed.id' f = i
                                          then f\<lparr>lastFetched := Some (now ev)\<rparr> else f)
                                     (rssFeed db')\<rparr>)))"

definition toCreateData :: "string \<Rightarrow> ArticleData \<Rightarrow> ArticleCreateData" where
  "toCreateData fid a =
     \<lparr> ArticleCreateData.feedId = fid,
       guid = ArticleData.guid a,
       title = ArticleData.title a,
       link = ArticleData.link a,
       content = ArticleData.content a,
       summary = ArticleData.summary a,
       pubDate = ArticleData.pubDate a,
       author = ArticleData.author a,
       categories = Some (ArticleData.categories a),
       imageUrl = ArticleData.imageUrl a \<rparr>"

text \<open>What \<open>fetchAndStoreFeed\<close> returns: the metadata and the three counters.\<close>

record StoreResult = BulkOperationResult +
  metadata :: FeedMetadata

text \<open>The \<open>catch\<close> of \<open>fetchAndStoreFeed\<close>: every failure leaves as this error.\<close>

definition fetchFailed :: "js_error \<Rightarrow> js_error" where
  "fetchFailed e = Error (''Failed to fetch feed: '' @ errorText e)"



section \<open>Concurrent refreshes (lib/rss/feed-refresh)\<close>

text \<open>
  \<open>fetchAndStoreFeed\<close> is an \<open>async\<close> function: it runs alone from one \<open>await\<close> to the
  next, and at an \<open>await\<close> (a query of the database, or the fetch of the document) the
  refreshes of the other feeds may run. A refresh in progress is at one of these points:
  it is about to look its feed up, about to fetch and parse the document, in the loop
  of \<open>bulkCreateRssArticles\<close> with the remaining articles and the counters (the update of
  the timestamp comes when no article remains), or settled.
\<close>

datatype 'a settled = Fulfilled 'a | Rejected js_error




datatype refresh =
    Lookup string
  | Parse string RssFeed
  | Store string ParsedFeed "ArticleCreateData list" BulkOperationResult
  | Settled "StoreResult settled"

text \<open>One step of a refresh: from its \<open>await\<close> to the next one, or to its end.\<close>

fun step :: "env \<Rightarrow> prisma \<Rightarrow> refresh \<Rightarrow> refresh \<times> prisma" where
  "step ev db (Lookup fid) =
     (case rssFeed_findUnique db fid of
        (Inl e, db') \<Rightarrow> (Settled (Rejected (fetchFailed e)), db')
      | (Inr None, db') \<Rightarrow>
          (Settled (Rejected (fetchFailed (Error (''Feed with ID '' @ fid @ '' not found'')))), db')
      | (Inr (Some fd), db') \<Rightarrow>
          (if \<not> isActive fd
           then (Settled (Rejected (fetchFailed (Error (''Feed '' @ fid @ '' is not active'')))), db')
           else (Parse fid fd, db')))"
| "step ev db (Parse fid fd) =
     (case fetchAndParseFeed ev (RssFeed.url fd) fid of
        Inl e \<Rightarrow> (Settled (Rejected (fetchFailed e)), db)
      | Inr parsed \<Rightarrow>
          (Store fid parsed (map (toCreateData (RssFeed.id' fd)) (articles parsed))
             \<lparr>created = 0, skipped = 0, errors = 0\<rparr>, db))"
| "step ev db (Store fid parsed (article # rest) results) =
     (case bulkLoop db [article] results of
        (results', db') \<Rightarrow> (Store fid parsed rest results', db'))"
| "step ev db (Store fid parsed [] results) =
     (case updateFeedLastFetched ev db fid of
        (Inl e, db') \<Rightarrow> (Settled (Rejected (fetchFailed e)), db')
      | (Inr u, db') \<Rightarrow>
          (Settled (Fulfilled (BulkOperationResult.extend results
                                 \<lparr> StoreResult.metadata = ParsedFeed.metadata parsed \<rparr>)), db'))"
| "step ev db (Settled r) = (Settled r, db)"

text \<open>
  The steps a refresh has before it: first by the point it is at, then by the number
  of articles that remain.
\<close>

fun stepsLeft :: "refresh \<Rightarrow> nat \<times> nat" where
  "stepsLeft (Lookup fid) = (2, 0)"
| "stepsLeft (Parse fid fd) = (1, 0)"
| "stepsLeft (Store fid parsed rest results) = (0, Suc (length rest))"
| "stepsLeft (Settled r) = (0, 0)"

text \<open>A refresh run alone until it has settled.\<close>

function (sequential) complete :: "env \<Rightarrow> prisma \<Rightarrow> refresh \<Rightarrow> StoreResult settled \<times> prisma" where
  "complete ev db (Settled r) = (r, db)"
| "complete ev db t = (case step ev db t of (t', db') \<Rightarrow> complete ev db' t')"
  by pat_completeness auto
termination
  apply (relation "inv_image (less_than <*lex*> less_than) (\<lambda>(ev, db, t). stepsLeft t)")
  subgoal by (intro wf_inv_image wf_lex_prod wf_less_than)
  subgoal by (auto split: prod.splits sum.splits option.splits if_splits)
  subgoal by (auto split: prod.splits sum.splits option.splits if_splits)
  subgoal for ev db fid parsed rest results x y
    by (cases rest) (auto split: prod.splits sum.splits)
  done

text \<open>
  The refreshes of a list of feeds under a schedule: each number of the schedule lets
  the refresh at that position take one step (a number that is no position, or the
  position of a settled refresh, changes nothing).
\<close>

fun run :: "env \<Rightarrow> prisma \<Rightarrow> refresh list \<Rightarrow> nat list \<Rightarrow> refresh list \<times> prisma" where
  "run ev db ts [] = (ts, db)"
| "run ev db ts (i # sched) =
     (if i < length ts
      then (case step ev db (ts ! i) of (t', db') \<Rightarrow> run ev db' (ts[i := t']) sched)
      else run ev db ts sched)"




section \<open>Pipeline coordinator (lib/rss/feed-refresh)\<close>



record PrepareFeedsParams =
  feedIds :: "string list"
  startDate :: int
  endDate :: int




section \<open>Reference definitions and sample data\<close>

text \<open>The sum of two results of the bulk upsert, counter by counter.\<close>

definition addCounts :: "BulkOperationResult \<Rightarrow> BulkOperationResult \<Rightarrow> BulkOperationResult" where
  "addCounts a b = \<lparr> created = created a + created b, skipped = skipped a + skipped b,
                     errors = errors a + errors b \<rparr>"

text \<open>Sample data: an empty database, an article sighted by a feed, an item with no field.\<close>

definition emptyDb :: prisma where
  "emptyDb = \<lparr> rssFeed = [], rssArticle = [], faults = [] \<rparr>"

definition sighting :: "string \<Rightarrow> string \<Rightarrow> ArticleCreateData" where
  "sighting fid g =
     \<lparr> ArticleCreateData.feedId = fid, guid = g, title = ''Release notes'',
       link = ''https://example.org/notes'', content = None, summary = Some ''Summary'',
       pubDate = 1700000000000, author = None, categories = None, imageUrl = None \<rparr>"

definition storedOnce :: prisma where
  "storedOnce = emptyDb\<lparr>rssArticle := [createRow (sighting ''feedA'' ''guid-1'')]\<rparr>"

definition item0 :: Item where
  "item0 = \<lparr> Item.guid = None, link = None, title = None, isoDate = None, pubDate = None,
             content = None, contentEncoded = None, description = None, summary = None,
             contentSnippet = None, creator = None, author = None, categories = None,
             enclosure = None \<rparr>"

text \<open>
  The freshness policy in the words of the specification: the timestamps of all feed
  records sharing a url, and a url being stale when none of them has a timestamp or
  the most recent one is older than the cache window.
\<close>

definition fetchTimes :: "RssFeed list \<Rightarrow> string \<Rightarrow> int list" where
  "fetchTimes tbl u = List.map_filter lastFetched (filter (\<lambda>f. RssFeed.url f = u) tbl)"

definition staleUrl :: "int \<Rightarrow> int \<Rightarrow> RssFeed list \<Rightarrow> string \<Rightarrow> bool" where
  "staleUrl window t tbl u =
     (fetchTimes tbl u = [] \<or> t - Max (set (fetchTimes tbl u)) > window)"

text \<open>Two feed records of different users on one url, the first fetched an hour before \<open>t0\<close>.\<close>

definition t0 :: int where
  "t0 = 1700000000000"

definition feedF1 :: RssFeed where
  "feedF1 = \<lparr> RssFeed.id' = ''F1'', userId = ''user1'', url = ''https://example.org/rss'',
               title = None, lastFetched = Some (t0 - 3600000), isActive = True \<rparr>"

definition feedF2 :: RssFeed where
  "feedF2 = \<lparr> RssFeed.id' = ''F2'', userId = ''user2'', url = ''https://example.org/rss'',
               title = None, lastFetched = None, isActive = True \<rparr>"

definition twoFeeds :: prisma where
  "twoFeeds = \<lparr> rssFeed = [feedF1, feedF2], rssArticle = [], faults = [] \<rparr>"

text \<open>Four stored articles, one of them sighted by a second feed twice.\<close>

definition stored :: "string \<Rightarrow> string \<Rightarrow> string list \<Rightarrow> int \<Rightarrow> RssArticle" where
  "stored fid g srcs d = (createRow (sighting fid g))\<lparr>sourceFeedIds := srcs, RssArticle.pubDate := d\<rparr>"

definition fourArticles :: prisma where
  "fourArticles =
     \<lparr> rssFeed = [],
       rssArticle = [stored ''F1'' ''guid-a'' [''F1''] 100,
                     stored ''F3'' ''guid-b'' [''F3'', ''F1'', ''F1''] 300,
                     stored ''F3'' ''guid-c'' [''F3''] 200,
                     stored ''F1'' ''guid-d'' [''F1''] 900],
       faults = [] \<rparr>"















section \<open>Properties of the deduplicating upsert\<close>

lemma handleDatabaseError_plain: "\<exists>m. handleDatabaseError e operation = Error m"
  by (cases e) (auto simp: handlePrismaError_def)

lemma handleDatabaseError_not_prisma: "\<not> isPrismaError (handleDatabaseError e operation)"
  using handleDatabaseError_plain [of e operation] by auto

lemma createRssArticle_unfold:
  "createRssArticle db d =
     (case query db of
        (Some e, db') \<Rightarrow> (Inl (handleDatabaseError e ''create RSS article''), db')
      | (None, db') \<Rightarrow>
          (Inr (upsertedRow d (rssArticle db')),
           db'\<lparr>rssArticle := upsertRows d (rssArticle db')\<rparr>))"
  by (simp add: createRssArticle_def rssArticle_upsert_def wrapDatabaseOperation_def
      split: prod.splits option.splits)

lemma query_tables:
  "query db = (r, db') \<Longrightarrow> rssArticle db' = rssArticle db \<and> rssFeed db' = rssFeed db \<and> faults db' = tl (faults db)"
  by (auto simp: query_def split: list.splits)

lemma createRssArticle_Inr:
  assumes "createRssArticle db d = (Inr row, db')"
  shows "row = upsertedRow d (rssArticle db) \<and> rssArticle db' = upsertRows d (rssArticle db)
         \<and> rssFeed db' = rssFeed db \<and> faults db' = tl (faults db)"
  using assms unfolding createRssArticle_unfold
  by (auto split: prod.splits option.splits dest!: query_tables)

lemma createRssArticle_Inl:
  assumes "createRssArticle db d = (Inl e, db')"
  shows "\<not> isPrismaError e \<and> rssArticle db' = rssArticle db
         \<and> rssFeed db' = rssFeed db \<and> faults db' = tl (faults db)"
  using assms unfolding createRssArticle_unfold
  by (auto split: prod.splits option.splits dest!: query_tables simp: handleDatabaseError_not_prisma)

lemma createRssArticle_no_fault:
  "faults db = [] \<Longrightarrow> createRssArticle db d =
     (Inr (upsertedRow d (rssArticle db)), db\<lparr>rssArticle := upsertRows d (rssArticle db)\<rparr>)"
  unfolding createRssArticle_unfold by (simp add: query_def)

lemma guid_pushSource [simp]: "RssArticle.guid (pushSource f r) = RssArticle.guid r"
  by (simp add: pushSource_def)

lemma guid_createRow [simp]: "RssArticle.guid (createRow d) = ArticleCreateData.guid d"
  by (simp add: createRow_def)

lemma sources_createRow [simp]: "sourceFeedIds (createRow d) = [ArticleCreateData.feedId d]"
  by (simp add: createRow_def)

lemma sources_pushSource [simp]: "sourceFeedIds (pushSource f r) = sourceFeedIds r @ [f]"
  by (simp add: pushSource_def)

lemma map_guid_upsertRows:
  "map RssArticle.guid (upsertRows d rs) =
     (if ArticleCreateData.guid d \<in> set (map RssArticle.guid rs) then map RssArticle.guid rs
      else map RssArticle.guid rs @ [ArticleCreateData.guid d])"
  by (induction rs) auto

lemma distinct_upsertRows:
  "distinct (map RssArticle.guid rs) \<Longrightarrow> distinct (map RssArticle.guid (upsertRows d rs))"
  by (simp add: map_guid_upsertRows)

lemma filter_other_upsertRows:
  "filter (\<lambda>r. RssArticle.guid r \<noteq> ArticleCreateData.guid d) (upsertRows d rs) =
   filter (\<lambda>r. RssArticle.guid r \<noteq> ArticleCreateData.guid d) rs"
  by (induction rs) auto

lemma filter_same_upsertRows:
  "distinct (map RssArticle.guid rs) \<Longrightarrow>
   filter (\<lambda>r. RssArticle.guid r = ArticleCreateData.guid d) (upsertRows d rs) = [upsertedRow d rs]"
  by (induction rs) (auto simp: filter_empty_conv image_iff)

lemma upsertedRow_find:
  "upsertedRow d rs =
     (case find (\<lambda>r. RssArticle.guid r = ArticleCreateData.guid d) rs of
        None \<Rightarrow> createRow d
      | Some old \<Rightarrow> pushSource (ArticleCreateData.feedId d) old)"
  by (induction rs) auto

lemma find_upsertRows:
  "find (\<lambda>r. RssArticle.guid r = ArticleCreateData.guid d) (upsertRows d rs) = Some (upsertedRow d rs)"
  by (induction rs) auto

lemma find_upsertRows_same:
  "g = ArticleCreateData.guid d \<Longrightarrow>
   find (\<lambda>r. RssArticle.guid r = g) (upsertRows d rs) = Some (upsertedRow d rs)"
  using find_upsertRows by simp

lemma sourceCount_withSourceCount:
  "sourceCount (withSourceCount fs r) = length (sourceFeedIds r)"
  by (simp add: withSourceCount_def RssArticle.defs ArticleWithSourceCount.defs)

lemma faults_noFault [simp]: "faults emptyDb = []" "faults storedOnce = []"
  by (simp_all add: emptyDb_def storedOnce_def)

lemma upsertedRow_in_upsertRows: "upsertedRow d rs \<in> set (upsertRows d rs)"
  by (induction rs) auto

lemma erase_pushSource:
  "(pushSource f r)\<lparr>sourceFeedIds := []\<rparr> = r\<lparr>sourceFeedIds := []\<rparr>"
  by (simp add: pushSource_def)

lemma upsertRows_present_erase:
  "find (\<lambda>r. RssArticle.guid r = ArticleCreateData.guid d) rs = Some old \<Longrightarrow>
   map (\<lambda>r. r\<lparr>sourceFeedIds := []\<rparr>) (upsertRows d rs) = map (\<lambda>r. r\<lparr>sourceFeedIds := []\<rparr>) rs"
  by (induction rs) (auto simp: erase_pushSource)

lemma upsertRows_keeps_others:
  "r \<in> set rs \<Longrightarrow> RssArticle.guid r \<noteq> ArticleCreateData.guid d \<Longrightarrow> r \<in> set (upsertRows d rs)"
  by (induction rs) auto

text \<open>
  Claim C1. Upserts keyed by guid keep one article row per guid. When the guids of the
  collection are distinct and three upserts of the same guid succeed one after the
  other, then after each of them exactly one row has that guid, and it is the row the
  upsert returns; the rows of other guids are as before; the first upsert creates the
  row with source set \<open>[feedId]\<close> when the guid was absent and appends its feed id to
  the source set when it was present; the second and the third append their feed ids
  to the row of the first, whatever these feed ids are, and add no row. When the guid
  was absent at the start, \<open>sourceCount\<close> is 2 after the second upsert and 3 after the
  third, also when the third comes from the feed of the first.
\<close>

theorem createRssArticle_one_row_per_guid:
  assumes inv: "distinct (map RssArticle.guid (rssArticle db))"
    and s1: "createRssArticle db d1 = (Inr r1, db1)"
    and s2: "createRssArticle db1 d2 = (Inr r2, db2)"
    and s3: "createRssArticle db2 d3 = (Inr r3, db3)"
    and g2: "ArticleCreateData.guid d2 = ArticleCreateData.guid d1"
    and g3: "ArticleCreateData.guid d3 = ArticleCreateData.guid d1"
  shows
    "distinct (map RssArticle.guid (rssArticle db1))
     \<and> filter (\<lambda>r. RssArticle.guid r = ArticleCreateData.guid d1) (rssArticle db1) = [r1]
     \<and> filter (\<lambda>r. RssArticle.guid r \<noteq> ArticleCreateData.guid d1) (rssArticle db1) =
         filter (\<lambda>r. RssArticle.guid r \<noteq> ArticleCreateData.guid d1) (rssArticle db)
     \<and> (case find (\<lambda>r. RssArticle.guid r = ArticleCreateData.guid d1) (rssArticle db) of
           None \<Rightarrow> r1 = createRow d1 \<and> sourceFeedIds r1 = [ArticleCreateData.feedId d1]
         | Some old \<Rightarrow> sourceFeedIds r1 = sourceFeedIds old @ [ArticleCreateData.feedId d1])
     \<and> filter (\<lambda>r. RssArticle.guid r = ArticleCreateData.guid d1) (rssArticle db2) = [r2]
     \<and> sourceFeedIds r2 = sourceFeedIds r1 @ [ArticleCreateData.feedId d2]
     \<and> filter (\<lambda>r. RssArticle.guid r = ArticleCreateData.guid d1) (rssArticle db3) = [r3]
     \<and> sourceFeedIds r3 = sourceFeedIds r2 @ [ArticleCreateData.feedId d3]
     \<and> length (rssArticle db3) = length (rssArticle db1)
     \<and> (find (\<lambda>r. RssArticle.guid r = ArticleCreateData.guid d1) (rssArticle db) = None \<longrightarrow>
          sourceCount (withSourceCount fs r2) = 2 \<and> sourceCount (withSourceCount fs r3) = 3)"
proof -
  let ?g = "ArticleCreateData.guid d1"
  note a1 = createRssArticle_Inr [OF s1]
  note a2 = createRssArticle_Inr [OF s2]
  note a3 = createRssArticle_Inr [OF s3]
  have t1: "rssArticle db1 = upsertRows d1 (rssArticle db)" using a1 by simp
  have t2: "rssArticle db2 = upsertRows d2 (rssArticle db1)" using a2 by simp
  have t3: "rssArticle db3 = upsertRows d3 (rssArticle db2)" using a3 by simp
  have i1: "distinct (map RssArticle.guid (rssArticle db1))"
    unfolding t1 by (rule distinct_upsertRows [OF inv])
  have i2: "distinct (map RssArticle.guid (rssArticle db2))"
    unfolding t2 by (rule distinct_upsertRows [OF i1])
  have f1: "filter (\<lambda>r. RssArticle.guid r = ?g) (rssArticle db1) = [r1]"
    unfolding t1 using filter_same_upsertRows [OF inv, of d1] a1 by simp
  have o1: "filter (\<lambda>r. RssArticle.guid r \<noteq> ?g) (rssArticle db1) =
            filter (\<lambda>r. RssArticle.guid r \<noteq> ?g) (rssArticle db)"
    unfolding t1 by (rule filter_other_upsertRows)
  have c1: "case find (\<lambda>r. RssArticle.guid r = ?g) (rssArticle db) of
              None \<Rightarrow> r1 = createRow d1 \<and> sourceFeedIds r1 = [ArticleCreateData.feedId d1]
            | Some old \<Rightarrow> sourceFeedIds r1 = sourceFeedIds old @ [ArticleCreateData.feedId d1]"
    using a1 by (simp add: upsertedRow_find split: option.splits)
  have f2: "filter (\<lambda>r. RssArticle.guid r = ?g) (rssArticle db2) = [r2]"
    unfolding t2 using filter_same_upsertRows [OF i1, of d2] a2 g2 by simp
  have p1: "find (\<lambda>r. RssArticle.guid r = ArticleCreateData.guid d2) (rssArticle db1) = Some r1"
    unfolding t1 using find_upsertRows_same [OF g2, of "rssArticle db"] a1 by simp
  have c2: "sourceFeedIds r2 = sourceFeedIds r1 @ [ArticleCreateData.feedId d2]"
    using a2 p1 by (simp add: upsertedRow_find)
  have f3: "filter (\<lambda>r. RssArticle.guid r = ?g) (rssArticle db3) = [r3]"
    unfolding t3 using filter_same_upsertRows [OF i2, of d3] a3 g3 by simp
  have g32: "ArticleCreateData.guid d3 = ArticleCreateData.guid d2" using g2 g3 by simp
  have p2: "find (\<lambda>r. RssArticle.guid r = ArticleCreateData.guid d3) (rssArticle db2) = Some r2"
    unfolding t2 using find_upsertRows_same [OF g32, of "rssArticle db1"] a2 by simp
  have c3: "sourceFeedIds r3 = sourceFeedIds r2 @ [ArticleCreateData.feedId d3]"
    using a3 p2 by (simp add: upsertedRow_find)
  have m1: "ArticleCreateData.guid d2 \<in> set (map RssArticle.guid (rssArticle db1))"
    unfolding t1 by (simp add: map_guid_upsertRows g2)
  have m2: "ArticleCreateData.guid d3 \<in> set (map RssArticle.guid (rssArticle db2))"
    unfolding t2 t1 by (simp add: map_guid_upsertRows g2 g3)
  have l2: "length (map RssArticle.guid (rssArticle db2)) = length (map RssArticle.guid (rssArticle db1))"
    unfolding t2 [unfolded] using m1 by (simp only: map_guid_upsertRows if_True)
  have l3: "length (map RssArticle.guid (rssArticle db3)) = length (map RssArticle.guid (rssArticle db2))"
    unfolding t3 using m2 by (simp only: map_guid_upsertRows if_True)
  have len: "length (rssArticle db3) = length (rssArticle db1)"
    using l2 l3 by simp
  have cnt: "find (\<lambda>r. RssArticle.guid r = ?g) (rssArticle db) = None \<longrightarrow>
          sourceCount (withSourceCount fs r2) = 2 \<and> sourceCount (withSourceCount fs r3) = 3"
    using c1 c2 c3 by (auto simp add: sourceCount_withSourceCount split: option.splits)
  show ?thesis
    using i1 f1 o1 c1 f2 c2 f3 c3 len cnt by blast
qed

theorem createRssArticle_one_row_per_guid_witness:
  "\<exists>r1 db1 r2 db2 r3 db3.
     distinct (map RssArticle.guid (rssArticle emptyDb))
     \<and> createRssArticle emptyDb (sighting ''feedA'' ''guid-1'') = (Inr r1, db1)
     \<and> createRssArticle db1 (sighting ''feedB'' ''guid-1'') = (Inr r2, db2)
     \<and> createRssArticle db2 (sighting ''feedA'' ''guid-1'') = (Inr r3, db3)
     \<and> sourceFeedIds r1 = [''feedA'']
     \<and> sourceFeedIds r2 = [''feedA'', ''feedB'']
     \<and> sourceFeedIds r3 = [''feedA'', ''feedB'', ''feedA'']
     \<and> sourceCount (withSourceCount [] r2) = 2
     \<and> sourceCount (withSourceCount [] r3) = 3
     \<and> filter (\<lambda>r. RssArticle.guid r = ''guid-1'') (rssArticle db3) = [r3]"
proof -
  let ?a = "sighting ''feedA'' ''guid-1''" and ?b = "sighting ''feedB'' ''guid-1''"
  define db1 where "db1 = emptyDb\<lparr>rssArticle := upsertRows ?a (rssArticle emptyDb)\<rparr>"
  define db2 where "db2 = db1\<lparr>rssArticle := upsertRows ?b (rssArticle db1)\<rparr>"
  define db3 where "db3 = db2\<lparr>rssArticle := upsertRows ?a (rssArticle db2)\<rparr>"
  define r1 where "r1 = upsertedRow ?a (rssArticle emptyDb)"
  define r2 where "r2 = upsertedRow ?b (rssArticle db1)"
  define r3 where "r3 = upsertedRow ?a (rssArticle db2)"
  have f1: "faults db1 = []" by (simp add: db1_def)
  have f2: "faults db2 = []" by (simp add: db2_def f1)
  have inv: "distinct (map RssArticle.guid (rssArticle emptyDb))" by (simp add: emptyDb_def)
  have s1: "createRssArticle emptyDb ?a = (Inr r1, db1)"
    unfolding r1_def db1_def by (rule createRssArticle_no_fault) simp
  have s2: "createRssArticle db1 ?b = (Inr r2, db2)"
    unfolding r2_def db2_def by (rule createRssArticle_no_fault) (rule f1)
  have s3: "createRssArticle db2 ?a = (Inr r3, db3)"
    unfolding r3_def db3_def by (rule createRssArticle_no_fault) (rule f2)
  have g: "ArticleCreateData.guid ?b = ArticleCreateData.guid ?a" by (simp add: sighting_def)
  have n: "find (\<lambda>r. RssArticle.guid r = ArticleCreateData.guid ?a) (rssArticle emptyDb) = None"
    by (simp add: emptyDb_def)
  have ga: "ArticleCreateData.guid ?a = ''guid-1''" "ArticleCreateData.feedId ?a = ''feedA''"
    "ArticleCreateData.feedId ?b = ''feedB''"
    by (simp_all add: sighting_def)
  note t = createRssArticle_one_row_per_guid [OF inv s1 s2 s3 g refl, of "[]"]
  note t4 = t [THEN conjunct2, THEN conjunct2, THEN conjunct2, THEN conjunct1]
  note t6 = t [THEN conjunct2, THEN conjunct2, THEN conjunct2, THEN conjunct2, THEN conjunct2,
               THEN conjunct1]
  note t7 = t [THEN conjunct2, THEN conjunct2, THEN conjunct2, THEN conjunct2, THEN conjunct2,
               THEN conjunct2, THEN conjunct1]
  note t8 = t [THEN conjunct2, THEN conjunct2, THEN conjunct2, THEN conjunct2, THEN conjunct2,
               THEN conjunct2, THEN conjunct2, THEN conjunct1]
  note t10 = t [THEN conjunct2, THEN conjunct2, THEN conjunct2, THEN conjunct2, THEN conjunct2,
               THEN conjunct2, THEN conjunct2, THEN conjunct2, THEN conjunct2, rule_format, OF n]
  have c1: "sourceFeedIds r1 = [''feedA'']"
    using t4 unfolding n by (simp add: ga)
  have c2: "sourceFeedIds r2 = [''feedA'', ''feedB'']"
    using t6 c1 by (simp add: ga)
  have c3: "sourceFeedIds r3 = [''feedA'', ''feedB'', ''feedA'']"
    using t8 c2 by (simp add: ga)
  have c7: "filter (\<lambda>r. RssArticle.guid r = ''guid-1'') (rssArticle db3) = [r3]"
    using t7 unfolding ga by simp
  show ?thesis
    using inv s1 s2 s3 c1 c2 c3 t10 [THEN conjunct1] t10 [THEN conjunct2] c7 by blast
qed

text \<open>
  Claim C7. An upsert whose guid is already stored returns the stored row with the
  incoming feed id appended to its source set and every other field as it was: title,
  link, content, summary, publish date, author, categories, image url, primary feed id
  and guid. The returned row is in the collection, and the collection, with the source
  sets left out, is what it was: no row is added and no other field of any row changes.
\<close>

theorem createRssArticle_existing_frame:
  assumes s: "createRssArticle db d = (Inr row, db')"
    and old: "find (\<lambda>r. RssArticle.guid r = ArticleCreateData.guid d) (rssArticle db) = Some old"
  shows
    "row = old\<lparr>sourceFeedIds := sourceFeedIds old @ [ArticleCreateData.feedId d]\<rparr>
     \<and> RssArticle.title row = RssArticle.title old
     \<and> RssArticle.link row = RssArticle.link old
     \<and> RssArticle.content row = RssArticle.content old
     \<and> RssArticle.summary row = RssArticle.summary old
     \<and> RssArticle.pubDate row = RssArticle.pubDate old
     \<and> RssArticle.author row = RssArticle.author old
     \<and> RssArticle.categories row = RssArticle.categories old
     \<and> RssArticle.imageUrl row = RssArticle.imageUrl old
     \<and> RssArticle.feedId row = RssArticle.feedId old
     \<and> RssArticle.guid row = RssArticle.guid old
     \<and> sourceFeedIds row = sourceFeedIds old @ [ArticleCreateData.feedId d]
     \<and> row \<in> set (rssArticle db')
     \<and> map (\<lambda>r. r\<lparr>sourceFeedIds := []\<rparr>) (rssArticle db') =
         map (\<lambda>r. r\<lparr>sourceFeedIds := []\<rparr>) (rssArticle db)
     \<and> (\<forall>r \<in> set (rssArticle db).
           RssArticle.guid r \<noteq> ArticleCreateData.guid d \<longrightarrow> r \<in> set (rssArticle db'))"
proof -
  note a = createRssArticle_Inr [OF s]
  have r: "row = old\<lparr>sourceFeedIds := sourceFeedIds old @ [ArticleCreateData.feedId d]\<rparr>"
    using a old by (simp add: upsertedRow_find pushSource_def)
  have m: "row \<in> set (rssArticle db')"
    using a upsertedRow_in_upsertRows [of d "rssArticle db"] by simp
  have e: "map (\<lambda>r. r\<lparr>sourceFeedIds := []\<rparr>) (rssArticle db') =
           map (\<lambda>r. r\<lparr>sourceFeedIds := []\<rparr>) (rssArticle db)"
    using a upsertRows_present_erase [OF old] by simp
  have k: "\<forall>r \<in> set (rssArticle db).
           RssArticle.guid r \<noteq> ArticleCreateData.guid d \<longrightarrow> r \<in> set (rssArticle db')"
    using a upsertRows_keeps_others [of _ "rssArticle db" d] by simp
  show ?thesis using r m e k by simp
qed

theorem createRssArticle_existing_frame_witness:
  "\<exists>row db'.
     createRssArticle storedOnce (sighting ''feedB'' ''guid-1'') = (Inr row, db')
     \<and> find (\<lambda>r. RssArticle.guid r = ''guid-1'') (rssArticle storedOnce)
         = Some (createRow (sighting ''feedA'' ''guid-1''))
     \<and> RssArticle.title row = ''Release notes''
     \<and> RssArticle.feedId row = ''feedA''
     \<and> sourceFeedIds row = [''feedA'', ''feedB'']
     \<and> length (rssArticle db') = 1"
proof -
  let ?b = "sighting ''feedB'' ''guid-1''"
  define row where "row = upsertedRow ?b (rssArticle storedOnce)"
  define db' where "db' = storedOnce\<lparr>rssArticle := upsertRows ?b (rssArticle storedOnce)\<rparr>"
  have s: "createRssArticle storedOnce ?b = (Inr row, db')"
    unfolding row_def db'_def by (rule createRssArticle_no_fault) simp
  have gb: "ArticleCreateData.guid ?b = ''guid-1''" "ArticleCreateData.feedId ?b = ''feedB''"
    by (simp_all add: sighting_def)
  have o: "find (\<lambda>r. RssArticle.guid r = ''guid-1'') (rssArticle storedOnce)
         = Some (createRow (sighting ''feedA'' ''guid-1''))"
    by (simp add: storedOnce_def emptyDb_def sighting_def createRow_def)
  have o': "find (\<lambda>r. RssArticle.guid r = ArticleCreateData.guid ?b) (rssArticle storedOnce)
         = Some (createRow (sighting ''feedA'' ''guid-1''))"
    unfolding gb by (rule o)
  note t = createRssArticle_existing_frame [OF s o']
  have c1: "RssArticle.title row = ''Release notes''"
    using t [THEN conjunct2, THEN conjunct1] by (simp add: createRow_def sighting_def)
  have c2: "RssArticle.feedId row = ''feedA''"
    using t [THEN conjunct2, THEN conjunct2, THEN conjunct2, THEN conjunct2, THEN conjunct2,
             THEN conjunct2, THEN conjunct2, THEN conjunct2, THEN conjunct2, THEN conjunct1]
    by (simp add: createRow_def sighting_def)
  have c3: "sourceFeedIds row = [''feedA'', ''feedB'']"
    using t [THEN conjunct2, THEN conjunct2, THEN conjunct2, THEN conjunct2, THEN conjunct2,
             THEN conjunct2, THEN conjunct2, THEN conjunct2, THEN conjunct2, THEN conjunct2,
             THEN conjunct2, THEN conjunct1]
    by (simp add: gb sighting_def)
  have e: "map (\<lambda>r. r\<lparr>sourceFeedIds := []\<rparr>) (rssArticle db') =
           map (\<lambda>r. r\<lparr>sourceFeedIds := []\<rparr>) (rssArticle storedOnce)"
    by (rule t [THEN conjunct2, THEN conjunct2, THEN conjunct2, THEN conjunct2, THEN conjunct2,
             THEN conjunct2, THEN conjunct2, THEN conjunct2, THEN conjunct2, THEN conjunct2,
             THEN conjunct2, THEN conjunct2, THEN conjunct2, THEN conjunct1])
  have "length (rssArticle db') = length (rssArticle storedOnce)"
    using arg_cong [OF e, of length] by simp
  then have len: "length (rssArticle db') = 1" by (simp add: storedOnce_def)
  show ?thesis
    using s o c1 c2 c3 len by blast
qed


section \<open>Properties of the bulk upsert\<close>

lemma bulkLoop_append:
  "bulkLoop db (xs @ ys) acc = (case bulkLoop db xs acc of (acc', db') \<Rightarrow> bulkLoop db' ys acc')"
  by (induction xs arbitrary: db acc) (auto split: prod.splits sum.splits)

lemma addCounts_bump:
  "(addCounts acc k)\<lparr>created := created (addCounts acc k) + 1\<rparr> = addCounts acc (k\<lparr>created := created k + 1\<rparr>)"
  "(addCounts acc k)\<lparr>skipped := skipped (addCounts acc k) + 1\<rparr> = addCounts acc (k\<lparr>skipped := skipped k + 1\<rparr>)"
  "(addCounts acc k)\<lparr>errors := errors (addCounts acc k) + 1\<rparr> = addCounts acc (k\<lparr>errors := errors k + 1\<rparr>)"
  by (simp_all add: addCounts_def)

lemma bulkLoop_addCounts:
  "bulkLoop db xs (addCounts acc k) =
     (case bulkLoop db xs k of (r, db') \<Rightarrow> (addCounts acc r, db'))"
proof (induction xs arbitrary: db k)
  case Nil
  show ?case by simp
next
  case (Cons x xs)
  obtain r db1 where c: "createRssArticle db x = (r, db1)" by (cases "createRssArticle db x")
  show ?case
  proof (cases r)
    case (Inl e)
    show ?thesis
    proof (cases "isPrismaError e \<and> code e = Some ''P2002''")
      case True
      then show ?thesis
        using c Inl by (simp only: bulkLoop.simps prod.case sum.case addCounts_bump Cons.IH, simp)
    next
      case False
      then show ?thesis
        using c Inl by (simp only: bulkLoop.simps prod.case sum.case addCounts_bump Cons.IH, simp)
    qed
  next
    case (Inr v)
    show ?thesis
      using c Inr by (simp only: bulkLoop.simps prod.case sum.case addCounts_bump Cons.IH)
  qed
qed

lemma bulkLoop_acc:
  "bulkLoop db xs acc =
     (case bulkLoop db xs \<lparr>created = 0, skipped = 0, errors = 0\<rparr> of
        (r, db') \<Rightarrow> (addCounts acc r, db'))"
proof -
  have "addCounts acc \<lparr>created = 0, skipped = 0, errors = 0\<rparr> = acc"
    by (simp add: addCounts_def)
  then show ?thesis
    using bulkLoop_addCounts [of db xs acc "\<lparr>created = 0, skipped = 0, errors = 0\<rparr>"] by simp
qed

lemma bulkLoop_total:
  "bulkLoop db xs acc = (res, db') \<Longrightarrow>
     created res + skipped res + errors res = created acc + skipped acc + errors acc + length xs"
  by (induction xs arbitrary: db acc) (auto split: prod.splits sum.splits if_splits)

lemma bulkLoop_never_skips:
  "bulkLoop db xs acc = (res, db') \<Longrightarrow> skipped res = skipped acc"
proof (induction xs arbitrary: db acc)
  case Nil
  then show ?case by simp
next
  case (Cons x xs)
  obtain r db1 where c: "createRssArticle db x = (r, db1)" by (cases "createRssArticle db x")
  show ?case
  proof (cases r)
    case (Inl e)
    then have "\<not> isPrismaError e" using c createRssArticle_Inl by blast
    then show ?thesis using Cons c Inl by auto
  next
    case (Inr v)
    then show ?thesis using Cons c by auto
  qed
qed

lemma bulkLoop_no_fault:
  "faults db = [] \<Longrightarrow> bulkLoop db xs acc = (res, db') \<Longrightarrow>
     rssArticle db' = foldl (\<lambda>tbl d. upsertRows d tbl) (rssArticle db) xs
     \<and> created res = created acc + length xs \<and> faults db' = []"
proof (induction xs arbitrary: db acc)
  case Nil
  then show ?case by simp
next
  case (Cons x xs)
  let ?db1 = "db\<lparr>rssArticle := upsertRows x (rssArticle db)\<rparr>"
  have c: "createRssArticle db x = (Inr (upsertedRow x (rssArticle db)), ?db1)"
    by (rule createRssArticle_no_fault [OF Cons.prems(1)])
  have f: "faults ?db1 = []" using Cons.prems(1) by simp
  have "bulkLoop ?db1 xs (acc\<lparr>created := created acc + 1\<rparr>) = (res, db')"
    using Cons.prems(2) c by simp
  from Cons.IH [OF f this] show ?case by simp
qed

text \<open>
  Claim C10. The bulk upsert always returns its counters, and they add up to the
  length of the batch. It handles the records in the order of the batch: the bulk
  upsert of \<open>xs @ ys\<close> is the bulk upsert of \<open>xs\<close> followed by that of \<open>ys\<close> on the
  database the first left, with the counters added. A record whose upsert fails is
  counted and the loop goes on. A successful upsert of a record whose guid is already
  stored counts as created and adds no row. When the database does not fail, every
  record counts as created and the collection is the fold of the upserts over the batch.
\<close>

theorem bulkCreateRssArticles_counts:
  "(\<forall>res db'. bulkCreateRssArticles db batch = (res, db') \<longrightarrow>
       created res + skipped res + errors res = length batch)
   \<and> bulkCreateRssArticles db (xs @ ys) =
       (case bulkCreateRssArticles db xs of
          (r1, db1) \<Rightarrow>
            (case bulkCreateRssArticles db1 ys of (r2, db2) \<Rightarrow> (addCounts r1 r2, db2)))
   \<and> bulkCreateRssArticles db [d] =
       (case createRssArticle db d of
          (Inr row, db1) \<Rightarrow> (\<lparr>created = 1, skipped = 0, errors = 0\<rparr>, db1)
        | (Inl e, db1) \<Rightarrow>
            (if isPrismaError e \<and> code e = Some ''P2002''
             then \<lparr>created = 0, skipped = 1, errors = 0\<rparr>
             else \<lparr>created = 0, skipped = 0, errors = 1\<rparr>, db1))
   \<and> (\<forall>row db1. ArticleCreateData.guid d \<in> set (map RssArticle.guid (rssArticle db))
         \<and> createRssArticle db d = (Inr row, db1) \<longrightarrow>
         bulkCreateRssArticles db [d] = (\<lparr>created = 1, skipped = 0, errors = 0\<rparr>, db1)
         \<and> length (rssArticle db1) = length (rssArticle db))
   \<and> (\<forall>res db'. faults db = [] \<and> bulkCreateRssArticles db batch = (res, db') \<longrightarrow>
         created res = length batch
         \<and> rssArticle db' = foldl (\<lambda>tbl d. upsertRows d tbl) (rssArticle db) batch)"
proof -
  have p1: "\<forall>res db'. bulkCreateRssArticles db batch = (res, db') \<longrightarrow>
       created res + skipped res + errors res = length batch"
  proof (intro allI impI)
    fix res db'
    assume b: "bulkCreateRssArticles db batch = (res, db')"
    from bulkLoop_total [OF b [unfolded bulkCreateRssArticles_def]]
    show "created res + skipped res + errors res = length batch" by simp
  qed
  have p2: "bulkCreateRssArticles db (xs @ ys) =
       (case bulkCreateRssArticles db xs of
          (r1, db1) \<Rightarrow>
            (case bulkCreateRssArticles db1 ys of (r2, db2) \<Rightarrow> (addCounts r1 r2, db2)))"
  proof -
    obtain r1 db1 where a: "bulkLoop db xs \<lparr>created = 0, skipped = 0, errors = 0\<rparr> = (r1, db1)"
      by (cases "bulkLoop db xs \<lparr>created = 0, skipped = 0, errors = 0\<rparr>")
    show ?thesis
      unfolding bulkCreateRssArticles_def bulkLoop_append a
      using bulkLoop_acc [of db1 ys r1] by simp
  qed
  have p3: "bulkCreateRssArticles db [d] =
       (case createRssArticle db d of
          (Inr row, db1) \<Rightarrow> (\<lparr>created = 1, skipped = 0, errors = 0\<rparr>, db1)
        | (Inl e, db1) \<Rightarrow>
            (if isPrismaError e \<and> code e = Some ''P2002''
             then \<lparr>created = 0, skipped = 1, errors = 0\<rparr>
             else \<lparr>created = 0, skipped = 0, errors = 1\<rparr>, db1))"
    by (simp add: bulkCreateRssArticles_def split: prod.splits sum.splits)
  have p4: "\<forall>row db1. ArticleCreateData.guid d \<in> set (map RssArticle.guid (rssArticle db))
         \<and> createRssArticle db d = (Inr row, db1) \<longrightarrow>
         bulkCreateRssArticles db [d] = (\<lparr>created = 1, skipped = 0, errors = 0\<rparr>, db1)
         \<and> length (rssArticle db1) = length (rssArticle db)"
  proof (intro allI impI, elim conjE)
    fix row db1
    assume m: "ArticleCreateData.guid d \<in> set (map RssArticle.guid (rssArticle db))"
      and c: "createRssArticle db d = (Inr row, db1)"
    have "length (map RssArticle.guid (rssArticle db1)) = length (map RssArticle.guid (rssArticle db))"
      using createRssArticle_Inr [OF c] m by (simp only: map_guid_upsertRows if_True)
    then show "bulkCreateRssArticles db [d] = (\<lparr>created = 1, skipped = 0, errors = 0\<rparr>, db1)
         \<and> length (rssArticle db1) = length (rssArticle db)"
      using c by (simp add: bulkCreateRssArticles_def)
  qed
  have p5: "\<forall>res db'. faults db = [] \<and> bulkCreateRssArticles db batch = (res, db') \<longrightarrow>
         created res = length batch
         \<and> rssArticle db' = foldl (\<lambda>tbl d. upsertRows d tbl) (rssArticle db) batch"
  proof (intro allI impI, elim conjE)
    fix res db'
    assume f: "faults db = []" and b: "bulkCreateRssArticles db batch = (res, db')"
    from bulkLoop_no_fault [OF f b [unfolded bulkCreateRssArticles_def]]
    show "created res = length batch
         \<and> rssArticle db' = foldl (\<lambda>tbl d. upsertRows d tbl) (rssArticle db) batch"
      by simp
  qed
  show ?thesis
    by (rule conjI [OF p1 conjI [OF p2 conjI [OF p3 conjI [OF p4 p5]]]])
qed

theorem bulkCreateRssArticles_counts_witness:
  "\<exists>res db' row db1.
     bulkCreateRssArticles storedOnce [sighting ''feedB'' ''guid-1'', sighting ''feedB'' ''guid-2'']
       = (res, db')
     \<and> created res + skipped res + errors res = 2
     \<and> faults storedOnce = []
     \<and> created res = 2
     \<and> ArticleCreateData.guid (sighting ''feedB'' ''guid-1'')
           \<in> set (map RssArticle.guid (rssArticle storedOnce))
     \<and> createRssArticle storedOnce (sighting ''feedB'' ''guid-1'') = (Inr row, db1)
     \<and> bulkCreateRssArticles storedOnce [sighting ''feedB'' ''guid-1'']
           = (\<lparr>created = 1, skipped = 0, errors = 0\<rparr>, db1)
     \<and> length (rssArticle db1) = 1"
proof -
  let ?b1 = "sighting ''feedB'' ''guid-1''" and ?b2 = "sighting ''feedB'' ''guid-2''"
  note T = bulkCreateRssArticles_counts [where db = storedOnce and batch = "[?b1, ?b2]"
      and d = ?b1 and xs = "[?b1]" and ys = "[?b2]"]
  obtain res db' where b: "bulkCreateRssArticles storedOnce [?b1, ?b2] = (res, db')"
    by (cases "bulkCreateRssArticles storedOnce [?b1, ?b2]")
  define row where "row = upsertedRow ?b1 (rssArticle storedOnce)"
  define db1 where "db1 = storedOnce\<lparr>rssArticle := upsertRows ?b1 (rssArticle storedOnce)\<rparr>"
  have f: "faults storedOnce = []" by simp
  have c: "createRssArticle storedOnce ?b1 = (Inr row, db1)"
    unfolding row_def db1_def by (rule createRssArticle_no_fault [OF f])
  have m: "ArticleCreateData.guid ?b1 \<in> set (map RssArticle.guid (rssArticle storedOnce))"
    by (simp add: storedOnce_def sighting_def)
  have l: "length (rssArticle storedOnce) = 1" by (simp add: storedOnce_def)
  have t1: "created res + skipped res + errors res = length [?b1, ?b2]"
    by (rule T [THEN conjunct1, rule_format, OF b])
  have t4: "bulkCreateRssArticles storedOnce [?b1] = (\<lparr>created = 1, skipped = 0, errors = 0\<rparr>, db1)
         \<and> length (rssArticle db1) = length (rssArticle storedOnce)"
    by (rule T [THEN conjunct2, THEN conjunct2, THEN conjunct2, THEN conjunct1, rule_format,
          OF conjI [OF m c]])
  have t5: "created res = length [?b1, ?b2]
         \<and> rssArticle db' = foldl (\<lambda>tbl d. upsertRows d tbl) (rssArticle storedOnce) [?b1, ?b2]"
    by (rule T [THEN conjunct2, THEN conjunct2, THEN conjunct2, THEN conjunct2, rule_format,
          OF conjI [OF f b]])
  have s: "created res + skipped res + errors res = 2" using t1 by simp
  have k: "created res = 2" using t5 by simp
  have l1: "length (rssArticle db1) = 1" using t4 l by simp
  show ?thesis
    using b s f k m c t4 [THEN conjunct1] l1 by blast
qed

text \<open>
  Claim C6. A duplicate-key error (code \<open>P2002\<close>) thrown by the upsert is to be counted
  as skipped. \<open>createRssArticle\<close> wraps the upsert in \<open>wrapDatabaseOperation\<close>, which
  throws a plain \<open>Error\<close> in place of the Prisma error, so the test of the \<open>catch\<close> in
  \<open>bulkCreateRssArticles\<close> is false and the record is counted under \<open>errors\<close>.
\<close>

theorem bulkCreateRssArticles_duplicate_key_is_error:
  "bulkCreateRssArticles
     (emptyDb\<lparr>faults := [Some (PrismaClientKnownRequestError ''P2002''
                                  ''Unique constraint failed on the fields: (guid)'')]\<rparr>)
     [sighting ''feedA'' ''guid-1'']
   = (\<lparr>created = 0, skipped = 0, errors = 1\<rparr>, emptyDb)"
  by (simp add: bulkCreateRssArticles_def createRssArticle_unfold query_def emptyDb_def
      handlePrismaError_def)


section \<open>Properties of the identity key\<close>

lemma orElse_nonempty: "d \<noteq> [] \<Longrightarrow> orElse a d \<noteq> []"
  by (cases a) auto

text \<open>
  Claim C8. The guid of every extracted article is the identity key of its item, and
  the key is never empty. It is the item's own guid when that is present and not empty,
  whatever the link; else the link when that is present and not empty; else
  \<open>feedId-title\<close>, where a missing title is interpolated as \<open>undefined\<close>. An item
  with no guid and no link and the title \<open>t\<close> has the key \<open>feedId-t\<close>.
\<close>

theorem extractArticles_guid_order:
  "map ArticleData.guid (extractArticles ev f fid) = map (extractGuid fid) (items f)
   \<and> extractGuid fid item \<noteq> []
   \<and> (\<forall>g. Item.guid item = Some g \<and> g \<noteq> [] \<longrightarrow> extractGuid fid item = g)
   \<and> (\<forall>l. \<not> truthy (Item.guid item) \<and> Item.link item = Some l \<and> l \<noteq> [] \<longrightarrow>
          extractGuid fid item = l)
   \<and> (\<not> truthy (Item.guid item) \<and> \<not> truthy (Item.link item) \<longrightarrow>
          extractGuid fid item = fid @ ''-'' @ interpolate (Item.title item))
   \<and> (\<forall>t. Item.guid item = None \<and> Item.link item = None \<and> Item.title item = Some t \<longrightarrow>
          extractGuid fid item = fid @ ''-'' @ t)"
proof -
  have p1: "map ArticleData.guid (extractArticles ev f fid) = map (extractGuid fid) (items f)"
    by (simp add: extractArticles_def extractArticle_def)
  have p2: "extractGuid fid item \<noteq> []"
    unfolding extractGuid_def by (intro orElse_nonempty) simp
  have p3: "\<forall>g. Item.guid item = Some g \<and> g \<noteq> [] \<longrightarrow> extractGuid fid item = g"
    by (simp add: extractGuid_def)
  have p4: "\<forall>l. \<not> truthy (Item.guid item) \<and> Item.link item = Some l \<and> l \<noteq> [] \<longrightarrow>
          extractGuid fid item = l"
    by (cases "Item.guid item") (auto simp: extractGuid_def)
  have p5: "\<not> truthy (Item.guid item) \<and> \<not> truthy (Item.link item) \<longrightarrow>
          extractGuid fid item = fid @ ''-'' @ interpolate (Item.title item)"
    by (cases "Item.guid item"; cases "Item.link item") (auto simp: extractGuid_def)
  have p6: "\<forall>t. Item.guid item = None \<and> Item.link item = None \<and> Item.title item = Some t \<longrightarrow>
          extractGuid fid item = fid @ ''-'' @ t"
    by (simp add: extractGuid_def)
  show ?thesis
    by (rule conjI [OF p1 conjI [OF p2 conjI [OF p3 conjI [OF p4 conjI [OF p5 p6]]]]])
qed

theorem extractArticles_guid_order_witness:
  "extractGuid ''feed1'' (item0\<lparr>Item.guid := Some ''urn:1'', Item.link := Some ''https://example.org/a''\<rparr>)
     = ''urn:1''
   \<and> extractGuid ''feed1'' (item0\<lparr>Item.guid := Some [], Item.link := Some ''https://example.org/a''\<rparr>)
     = ''https://example.org/a''
   \<and> extractGuid ''feed1'' (item0\<lparr>Item.title := Some ''Hello''\<rparr>) = ''feed1-Hello''
   \<and> extractGuid ''feed1'' item0 = ''feed1-undefined''"
proof -
  let ?a = "item0\<lparr>Item.guid := Some ''urn:1'', Item.link := Some ''https://example.org/a''\<rparr>"
  let ?b = "item0\<lparr>Item.guid := Some [], Item.link := Some ''https://example.org/a''\<rparr>"
  let ?c = "item0\<lparr>Item.title := Some ''Hello''\<rparr>"
  note T = extractArticles_guid_order [where fid = "''feed1''"]
  have a: "Item.guid ?a = Some ''urn:1'' \<and> ''urn:1'' \<noteq> []" by simp
  have b: "\<not> truthy (Item.guid ?b) \<and> Item.link ?b = Some ''https://example.org/a''
           \<and> ''https://example.org/a'' \<noteq> []" by simp
  have c: "Item.guid ?c = None \<and> Item.link ?c = None \<and> Item.title ?c = Some ''Hello''"
    by (simp add: item0_def)
  have d: "\<not> truthy (Item.guid item0) \<and> \<not> truthy (Item.link item0)"
    by (simp add: item0_def)
  have t: "interpolate (Item.title item0) = ''undefined''" by (simp add: item0_def)
  have A: "extractGuid ''feed1'' ?a = ''urn:1''"
    by (rule T [where item = ?a, THEN conjunct2, THEN conjunct2, THEN conjunct1, rule_format, OF a])
  have B: "extractGuid ''feed1'' ?b = ''https://example.org/a''"
    by (rule T [where item = ?b, THEN conjunct2, THEN conjunct2, THEN conjunct2, THEN conjunct1,
          rule_format, OF b])
  have C: "extractGuid ''feed1'' ?c = ''feed1'' @ ''-'' @ ''Hello''"
    by (rule T [where item = ?c, THEN conjunct2, THEN conjunct2, THEN conjunct2, THEN conjunct2,
          THEN conjunct2, rule_format, OF c])
  have D: "extractGuid ''feed1'' item0 = ''feed1'' @ ''-'' @ interpolate (Item.title item0)"
    by (rule T [where item = item0, THEN conjunct2, THEN conjunct2, THEN conjunct2, THEN conjunct2,
          THEN conjunct1, rule_format, OF d])
  show ?thesis
    using A B C D unfolding t by simp
qed


section \<open>Properties of the freshness classification\<close>

lemma set_orderByDesc [simp]: "set (orderByDesc f xs) = set xs"
  by (simp add: orderByDesc_def)

lemma length_orderByDesc [simp]: "length (orderByDesc f xs) = length xs"
  by (simp add: orderByDesc_def)

lemma sorted_orderByDesc: "sorted_wrt (\<lambda>a b. f b \<le> f a) (orderByDesc f xs)"
proof -
  have "sorted (map f (sort_key f (rev xs)))" by (rule sorted_sort_key)
  then have "sorted_wrt (\<lambda>a b. f a \<le> f b) (sort_key f (rev xs))"
    by (simp add: sorted_map)
  then show ?thesis
    unfolding orderByDesc_def by (simp add: sorted_wrt_rev)
qed

lemma orderByDesc_head:
  assumes "orderByDesc f xs = y # ys"
  shows "y \<in> set xs \<and> (\<forall>x \<in> set xs. f x \<le> f y)"
proof -
  have s: "set xs = set (y # ys)" using assms set_orderByDesc [of f xs] by simp
  have "sorted_wrt (\<lambda>a b. f b \<le> f a) (y # ys)"
    using sorted_orderByDesc [of f xs] assms by simp
  then have "\<forall>x \<in> set ys. f x \<le> f y" by simp
  then show ?thesis using s by auto
qed

lemma set_map_filter_lastFetched:
  "set (List.map_filter lastFetched (xs :: RssFeed list)) = {t. \<exists>f \<in> set xs. lastFetched f = Some t}"
  by (induction xs) (auto split: option.splits)

lemma set_fetchTimes:
  "set (fetchTimes tbl u) = {t. \<exists>f \<in> set tbl. RssFeed.url f = u \<and> lastFetched f = Some t}"
  by (auto simp: fetchTimes_def set_map_filter_lastFetched)

lemma fetchTimes_empty:
  "fetchTimes tbl u = [] \<longleftrightarrow> (\<forall>f \<in> set tbl. RssFeed.url f = u \<longrightarrow> lastFetched f = None)"
proof -
  have "fetchTimes tbl u = [] \<longleftrightarrow> set (fetchTimes tbl u) = {}" by simp
  also have "\<dots> \<longleftrightarrow> (\<forall>f \<in> set tbl. RssFeed.url f = u \<longrightarrow> lastFetched f = None)"
  proof
    assume e: "set (fetchTimes tbl u) = {}"
    show "\<forall>f \<in> set tbl. RssFeed.url f = u \<longrightarrow> lastFetched f = None"
    proof (intro ballI impI)
      fix f assume f: "f \<in> set tbl" "RssFeed.url f = u"
      show "lastFetched f = None"
      proof (cases "lastFetched f")
        case None
        then show ?thesis .
      next
        case (Some s)
        then have "s \<in> set (fetchTimes tbl u)" unfolding set_fetchTimes using f by auto
        then show ?thesis using e by simp
      qed
    qed
  next
    assume "\<forall>f \<in> set tbl. RssFeed.url f = u \<longrightarrow> lastFetched f = None"
    then show "set (fetchTimes tbl u) = {}" unfolding set_fetchTimes by auto
  qed
  finally show ?thesis .
qed

lemma mostRecent_stale:
  "needsRefresh window t
     (case orderByDesc lastFetched (filter (\<lambda>f. RssFeed.url f = u) tbl) of
        [] \<Rightarrow> None | f # fs \<Rightarrow> Some (lastFetched f))
   = staleUrl window t tbl u"
proof (cases "orderByDesc lastFetched (filter (\<lambda>f. RssFeed.url f = u) tbl)")
  case Nil
  then have "filter (\<lambda>f. RssFeed.url f = u) tbl = []"
    using length_orderByDesc [of lastFetched "filter (\<lambda>f. RssFeed.url f = u) tbl"] by simp
  then have "fetchTimes tbl u = []" by (simp add: fetchTimes_def)
  then show ?thesis using Nil by (simp add: staleUrl_def)
next
  case (Cons y ys)
  from orderByDesc_head [OF Cons]
  have y: "y \<in> set tbl" "RssFeed.url y = u"
    and mx: "\<forall>x \<in> set tbl. RssFeed.url x = u \<longrightarrow> lastFetched x \<le> lastFetched y"
    by auto
  show ?thesis
  proof (cases "lastFetched y")
    case None
    have "\<forall>f \<in> set tbl. RssFeed.url f = u \<longrightarrow> lastFetched f = None"
    proof (intro ballI impI)
      fix f assume "f \<in> set tbl" "RssFeed.url f = u"
      then have "lastFetched f \<le> None" using mx None by auto
      then show "lastFetched f = None" by (cases "lastFetched f") auto
    qed
    then have "fetchTimes tbl u = []" by (simp add: fetchTimes_empty)
    then show ?thesis using Cons None by (simp add: staleUrl_def)
  next
    case (Some t0)
    have m: "t0 \<in> set (fetchTimes tbl u)"
      unfolding set_fetchTimes using y Some by auto
    have ub: "\<And>s. s \<in> set (fetchTimes tbl u) \<Longrightarrow> s \<le> t0"
    proof -
      fix s assume "s \<in> set (fetchTimes tbl u)"
      then obtain f where "f \<in> set tbl" "RssFeed.url f = u" "lastFetched f = Some s"
        unfolding set_fetchTimes by auto
      then have "Some s \<le> Some t0" using mx Some by metis
      then show "s \<le> t0" by simp
    qed
    have "Max (set (fetchTimes tbl u)) = t0"
      by (rule Max_eqI) (use m ub in auto)
    moreover have "fetchTimes tbl u \<noteq> []" using m by auto
    ultimately show ?thesis using Cons Some by (simp add: staleUrl_def)
  qed
qed

lemma rssFeed_findFirst_Inr:
  assumes "rssFeed_findFirst db u = (Inr m, db')"
  shows "needsRefresh window t m = staleUrl window t (rssFeed db) u
         \<and> rssFeed db' = rssFeed db \<and> rssArticle db' = rssArticle db
         \<and> faults db' = tl (faults db)"
proof -
  obtain q dbq where q: "query db = (q, dbq)" by (cases "query db")
  note qt = query_tables [OF q]
  show ?thesis
  proof (cases q)
    case None
    then show ?thesis
      using assms q qt mostRecent_stale [of window t u "rssFeed db"]
      by (auto simp: rssFeed_findFirst_def)
  next
    case (Some e)
    then show ?thesis using assms q by (simp add: rssFeed_findFirst_def)
  qed
qed

lemma rssFeed_findFirst_window_free:
  "rssFeed_findFirst db u = (r, db') \<Longrightarrow>
     rssFeed db' = rssFeed db \<and> rssArticle db' = rssArticle db \<and> faults db' = tl (faults db)"
  by (auto simp: rssFeed_findFirst_def split: prod.splits option.splits dest!: query_tables)

lemma refreshLoop_Inr:
  "refreshLoop window t db fs acc = (Inr out, db') \<Longrightarrow>
     out = acc @ map RssFeed.id' (filter (\<lambda>f. staleUrl window t (rssFeed db) (RssFeed.url f)) fs)
     \<and> rssFeed db' = rssFeed db \<and> rssArticle db' = rssArticle db"
proof (induction fs arbitrary: db acc)
  case Nil
  then show ?case by simp
next
  case (Cons f fs)
  obtain r db1 where q: "rssFeed_findFirst db (RssFeed.url f) = (r, db1)"
    by (cases "rssFeed_findFirst db (RssFeed.url f)")
  show ?case
  proof (cases r)
    case (Inl e)
    then show ?thesis using Cons.prems q by simp
  next
    case (Inr m)
    note h = rssFeed_findFirst_Inr [OF q [unfolded Inr], of window t]
    have "refreshLoop window t db1 fs
            (if needsRefresh window t m then acc @ [RssFeed.id' f] else acc) = (Inr out, db')"
      using Cons.prems q Inr by simp
    from Cons.IH [OF this] show ?thesis using h by auto
  qed
qed

lemma refreshLoop_other_window:
  "refreshLoop window t db fs acc = (Inr out, db') \<Longrightarrow>
     \<exists>out'. refreshLoop window' t db fs acc' = (Inr out', db')"
proof (induction fs arbitrary: db acc acc')
  case Nil
  then show ?case by simp
next
  case (Cons f fs)
  obtain r db1 where q: "rssFeed_findFirst db (RssFeed.url f) = (r, db1)"
    by (cases "rssFeed_findFirst db (RssFeed.url f)")
  show ?case
  proof (cases r)
    case (Inl e)
    then show ?thesis using Cons.prems q by simp
  next
    case (Inr m)
    have "refreshLoop window t db1 fs
            (if needsRefresh window t m then acc @ [RssFeed.id' f] else acc) = (Inr out, db')"
      using Cons.prems q Inr by simp
    from Cons.IH [OF this, of "if needsRefresh window' t m then acc' @ [RssFeed.id' f] else acc'"]
    show ?thesis using q Inr by simp
  qed
qed

lemma refreshLoop_no_fault:
  "faults db = [] \<Longrightarrow> \<exists>out. refreshLoop window t db fs acc = (Inr out, db)"
proof (induction fs arbitrary: acc)
  case Nil
  then show ?case by simp
next
  case (Cons f fs)
  have "\<exists>m. rssFeed_findFirst db (RssFeed.url f) = (Inr m, db)"
    using Cons.prems by (simp add: rssFeed_findFirst_def query_def)
  then obtain m where "rssFeed_findFirst db (RssFeed.url f) = (Inr m, db)" by blast
  then show ?case using Cons.IH [OF Cons.prems] by simp
qed

lemma rssFeed_findMany_Inr:
  "rssFeed_findMany db ids = (Inr fs, db') \<Longrightarrow>
     fs = filter (\<lambda>f. RssFeed.id' f \<in> set ids) (rssFeed db)
     \<and> rssFeed db' = rssFeed db \<and> rssArticle db' = rssArticle db"
  by (auto simp: rssFeed_findMany_def split: prod.splits option.splits dest!: query_tables)

lemma getFeedsToRefreshWithin_Inr:
  assumes "getFeedsToRefreshWithin window t db ids = (Inr stale, db')"
  shows "stale = map RssFeed.id'
           (filter (\<lambda>f. RssFeed.id' f \<in> set ids \<and> staleUrl window t (rssFeed db) (RssFeed.url f))
              (rssFeed db))
         \<and> rssFeed db' = rssFeed db \<and> rssArticle db' = rssArticle db"
proof -
  obtain r db1 where q: "rssFeed_findMany db ids = (r, db1)" by (cases "rssFeed_findMany db ids")
  show ?thesis
  proof (cases r)
    case (Inl e)
    then show ?thesis using assms q by (simp add: getFeedsToRefreshWithin_def)
  next
    case (Inr fs)
    note h = rssFeed_findMany_Inr [OF q [unfolded Inr]]
    have "refreshLoop window t db1 fs [] = (Inr stale, db')"
      using assms q Inr by (simp add: getFeedsToRefreshWithin_def)
    from refreshLoop_Inr [OF this] show ?thesis using h by (simp add: conj_commute)
  qed
qed

lemma getFeedsToRefreshWithin_other_window:
  assumes "getFeedsToRefreshWithin window t db ids = (Inr stale, db')"
  shows "\<exists>stale'. getFeedsToRefreshWithin window' t db ids = (Inr stale', db')"
proof -
  obtain r db1 where q: "rssFeed_findMany db ids = (r, db1)" by (cases "rssFeed_findMany db ids")
  show ?thesis
  proof (cases r)
    case (Inl e)
    then show ?thesis using assms q by (simp add: getFeedsToRefreshWithin_def)
  next
    case (Inr fs)
    have "refreshLoop window t db1 fs [] = (Inr stale, db')"
      using assms q Inr by (simp add: getFeedsToRefreshWithin_def)
    from refreshLoop_other_window [OF this, of window' "[]"]
    show ?thesis using q Inr by (simp add: getFeedsToRefreshWithin_def)
  qed
qed

lemma getFeedsToRefreshWithin_no_fault:
  assumes "faults db = []"
  shows "\<exists>stale. getFeedsToRefreshWithin window t db ids = (Inr stale, db)"
proof -
  have "rssFeed_findMany db ids = (Inr (filter (\<lambda>f. RssFeed.id' f \<in> set ids) (rssFeed db)), db)"
    using assms by (simp add: rssFeed_findMany_def query_def)
  then show ?thesis
    using refreshLoop_no_fault [OF assms] by (simp add: getFeedsToRefreshWithin_def)
qed

lemma staleUrl_mono: "w' \<le> w \<Longrightarrow> staleUrl w t tbl u \<Longrightarrow> staleUrl w' t tbl u"
  by (auto simp: staleUrl_def)

lemma needsRefresh_mono: "w' \<le> w \<Longrightarrow> needsRefresh w t m \<Longrightarrow> needsRefresh w' t m"
  by (cases "(w, t, m)" rule: needsRefresh.cases) auto

lemma filter_unique_id:
  "distinct (map RssFeed.id' tbl) \<Longrightarrow> f \<in> set tbl \<Longrightarrow>
     filter (\<lambda>x. RssFeed.id' x = RssFeed.id' f) tbl = [f]"
proof (induction tbl)
  case Nil
  then show ?case by simp
next
  case (Cons a tbl)
  show ?case
  proof (cases "a = f")
    case True
    have "RssFeed.id' f \<notin> RssFeed.id' ` set tbl"
      using Cons.prems(1) True by simp
    then have "\<forall>x \<in> set tbl. RssFeed.id' x \<noteq> RssFeed.id' f"
      by (metis imageI)
    then have "filter (\<lambda>x. RssFeed.id' x = RssFeed.id' f) tbl = []"
      by (simp add: filter_empty_conv)
    then show ?thesis using True by simp
  next
    case False
    then have m: "f \<in> set tbl" using Cons.prems(2) by simp
    then have "RssFeed.id' a \<noteq> RssFeed.id' f" using Cons.prems(1) by auto
    then show ?thesis using Cons.IH m Cons.prems(1) by simp
  qed
qed

lemma staleUrl_most_recent:
  assumes "f1 \<in> set tbl" "RssFeed.url f1 = u" "lastFetched f1 = Some t1"
    and "\<forall>f \<in> set tbl. RssFeed.url f = u \<longrightarrow> lastFetched f \<le> Some t1"
  shows "staleUrl window t tbl u \<longleftrightarrow> t - t1 > window"
proof -
  have m: "t1 \<in> set (fetchTimes tbl u)" unfolding set_fetchTimes using assms by auto
  have ub: "\<And>s. s \<in> set (fetchTimes tbl u) \<Longrightarrow> s \<le> t1"
  proof -
    fix s assume "s \<in> set (fetchTimes tbl u)"
    then obtain f where "f \<in> set tbl" "RssFeed.url f = u" "lastFetched f = Some s"
      unfolding set_fetchTimes by auto
    then have "Some s \<le> Some t1" using assms(4) by metis
    then show "s \<le> t1" by simp
  qed
  have "Max (set (fetchTimes tbl u)) = t1" by (rule Max_eqI) (use m ub in auto)
  moreover have "fetchTimes tbl u \<noteq> []" using m by auto
  ultimately show ?thesis by (simp add: staleUrl_def)
qed

lemma twoFeeds_facts:
  "RssFeed.url feedF1 = ''https://example.org/rss''" "RssFeed.url feedF2 = ''https://example.org/rss''"
  "RssFeed.id' feedF1 = ''F1''" "RssFeed.id' feedF2 = ''F2''"
  "rssFeed twoFeeds = [feedF1, feedF2]" "faults twoFeeds = []"
  by (simp_all add: feedF1_def feedF2_def twoFeeds_def)

lemma twoFeeds_stale:
  "staleUrl w t0 [feedF1, feedF2] ''https://example.org/rss'' \<longleftrightarrow> w < 3600000"
proof -
  have "fetchTimes [feedF1, feedF2] ''https://example.org/rss'' = [t0 - 3600000]"
    by (simp add: fetchTimes_def feedF1_def feedF2_def)
  then show ?thesis by (simp add: staleUrl_def)
qed

lemma filter_conj_ids:
  "filter (\<lambda>f. RssFeed.id' f \<in> set [i] \<and> P f) tbl = filter P (filter (\<lambda>x. RssFeed.id' x = i) tbl)"
  by (induction tbl) auto

text \<open>
  Claim C2. When the classification returns, its result is the list of the ids of the
  feed records that are requested and stale, where a feed is stale when no feed record
  with its url has a \<open>lastFetched\<close> timestamp, or when the time since the most recent
  \<open>lastFetched\<close> among all feed records with its url exceeds the cache window. The
  window of \<open>getFeedsToRefresh\<close> is three hours. With two feed records on one url, the
  most recent fetch of that url an hour ago, classifying the second alone gives no
  stale feed under a window of three hours and the second feed under a window of
  thirty minutes.
\<close>

theorem getFeedsToRefresh_classifies:
  assumes run: "getFeedsToRefreshWithin window t db ids = (Inr stale, db')"
  shows
    "stale = map RssFeed.id'
       (filter (\<lambda>f. RssFeed.id' f \<in> set ids \<and> staleUrl window t (rssFeed db) (RssFeed.url f))
          (rssFeed db))
     \<and> getFeedsToRefresh t db ids = getFeedsToRefreshWithin (3 * 60 * 60 * 1000) t db ids
     \<and> (\<forall>f1 f2.
          f1 \<in> set (rssFeed db) \<and> f2 \<in> set (rssFeed db)
          \<and> RssFeed.url f1 = RssFeed.url f2
          \<and> lastFetched f1 = Some (t - 60 * 60 * 1000)
          \<and> (\<forall>f \<in> set (rssFeed db).
                RssFeed.url f = RssFeed.url f2 \<longrightarrow> lastFetched f \<le> Some (t - 60 * 60 * 1000))
          \<and> distinct (map RssFeed.id' (rssFeed db))
          \<and> ids = [RssFeed.id' f2] \<longrightarrow>
            (window = 3 * 60 * 60 * 1000 \<longrightarrow> stale = [])
            \<and> (window = 30 * 60 * 1000 \<longrightarrow> stale = [RssFeed.id' f2]))"
proof -
  note c = getFeedsToRefreshWithin_Inr [OF run]
  have p1: "stale = map RssFeed.id'
       (filter (\<lambda>f. RssFeed.id' f \<in> set ids \<and> staleUrl window t (rssFeed db) (RssFeed.url f))
          (rssFeed db))"
    using c by simp
  have p2: "getFeedsToRefresh t db ids = getFeedsToRefreshWithin (3 * 60 * 60 * 1000) t db ids"
    by (simp add: getFeedsToRefresh_def CACHE_WINDOW_def)
  have p3: "\<forall>f1 f2.
          f1 \<in> set (rssFeed db) \<and> f2 \<in> set (rssFeed db)
          \<and> RssFeed.url f1 = RssFeed.url f2
          \<and> lastFetched f1 = Some (t - 60 * 60 * 1000)
          \<and> (\<forall>f \<in> set (rssFeed db).
                RssFeed.url f = RssFeed.url f2 \<longrightarrow> lastFetched f \<le> Some (t - 60 * 60 * 1000))
          \<and> distinct (map RssFeed.id' (rssFeed db))
          \<and> ids = [RssFeed.id' f2] \<longrightarrow>
            (window = 3 * 60 * 60 * 1000 \<longrightarrow> stale = [])
            \<and> (window = 30 * 60 * 1000 \<longrightarrow> stale = [RssFeed.id' f2])"
  proof (intro allI impI, elim conjE)
    fix f1 f2
    assume m1: "f1 \<in> set (rssFeed db)" and m2: "f2 \<in> set (rssFeed db)"
      and u: "RssFeed.url f1 = RssFeed.url f2"
      and l: "lastFetched f1 = Some (t - 60 * 60 * 1000)"
      and mx: "\<forall>f \<in> set (rssFeed db).
                RssFeed.url f = RssFeed.url f2 \<longrightarrow> lastFetched f \<le> Some (t - 60 * 60 * 1000)"
      and d: "distinct (map RssFeed.id' (rssFeed db))"
      and i: "ids = [RssFeed.id' f2]"
    have s: "staleUrl window t (rssFeed db) (RssFeed.url f2) \<longleftrightarrow> t - (t - 60 * 60 * 1000) > window"
      by (rule staleUrl_most_recent [OF m1 u l mx])
    have "stale = map RssFeed.id'
            (filter (\<lambda>f. staleUrl window t (rssFeed db) (RssFeed.url f))
               (filter (\<lambda>x. RssFeed.id' x = RssFeed.id' f2) (rssFeed db)))"
      unfolding p1 i filter_conj_ids ..
    then have "stale = map RssFeed.id'
            (filter (\<lambda>f. staleUrl window t (rssFeed db) (RssFeed.url f)) [f2])"
      unfolding filter_unique_id [OF d m2] .
    then show "(window = 3 * 60 * 60 * 1000 \<longrightarrow> stale = [])
            \<and> (window = 30 * 60 * 1000 \<longrightarrow> stale = [RssFeed.id' f2])"
      using s by auto
  qed
  show ?thesis by (rule conjI [OF p1 conjI [OF p2 p3]])
qed

theorem getFeedsToRefresh_classifies_witness:
  "getFeedsToRefresh t0 twoFeeds [''F2''] = (Inr [], twoFeeds)
   \<and> getFeedsToRefreshWithin (3 * 60 * 60 * 1000) t0 twoFeeds [''F2''] = (Inr [], twoFeeds)
   \<and> getFeedsToRefreshWithin (30 * 60 * 1000) t0 twoFeeds [''F2''] = (Inr [''F2''], twoFeeds)
   \<and> getFeedsToRefreshWithin (30 * 60 * 1000) t0 twoFeeds [''F1'', ''F2'']
       = (Inr [''F1'', ''F2''], twoFeeds)"
proof -
  have f: "faults twoFeeds = []" by (simp add: twoFeeds_def)
  have tbl: "rssFeed twoFeeds = [feedF1, feedF2]" by (simp add: twoFeeds_def)
  have hyp: "feedF1 \<in> set (rssFeed twoFeeds) \<and> feedF2 \<in> set (rssFeed twoFeeds)
          \<and> RssFeed.url feedF1 = RssFeed.url feedF2
          \<and> lastFetched feedF1 = Some (t0 - 60 * 60 * 1000)
          \<and> (\<forall>f \<in> set (rssFeed twoFeeds).
                RssFeed.url f = RssFeed.url feedF2 \<longrightarrow> lastFetched f \<le> Some (t0 - 60 * 60 * 1000))
          \<and> distinct (map RssFeed.id' (rssFeed twoFeeds))
          \<and> [''F2''] = [RssFeed.id' feedF2]"
    by (simp add: tbl feedF1_def feedF2_def)
  obtain a where a: "getFeedsToRefreshWithin (3 * 60 * 60 * 1000) t0 twoFeeds [''F2''] = (Inr a, twoFeeds)"
    using getFeedsToRefreshWithin_no_fault [OF f] by blast
  obtain b where b: "getFeedsToRefreshWithin (30 * 60 * 1000) t0 twoFeeds [''F2''] = (Inr b, twoFeeds)"
    using getFeedsToRefreshWithin_no_fault [OF f] by blast
  obtain c where c: "getFeedsToRefreshWithin (30 * 60 * 1000) t0 twoFeeds [''F1'', ''F2''] = (Inr c, twoFeeds)"
    using getFeedsToRefreshWithin_no_fault [OF f] by blast
  note A = getFeedsToRefresh_classifies [OF a]
  note B = getFeedsToRefresh_classifies [OF b]
  note C = getFeedsToRefresh_classifies [OF c]
  have a0: "a = []"
    using A [THEN conjunct2, THEN conjunct2, rule_format, OF hyp] by simp
  have b0: "b = [''F2'']"
    using B [THEN conjunct2, THEN conjunct2, rule_format, OF hyp] by (simp add: feedF2_def)
  have c0: "c = [''F1'', ''F2'']"
    using C [THEN conjunct1] by (simp add: twoFeeds_facts twoFeeds_stale)
  have g: "getFeedsToRefresh t0 twoFeeds [''F2''] = (Inr [], twoFeeds)"
    using A [THEN conjunct2, THEN conjunct1] a a0 by simp
  show ?thesis using g a a0 b b0 c c0 by simp
qed

text \<open>
  Claim C9. Staleness is monotonic in the cache window: for the same time, database and
  request, when the classification returns under a window \<open>w\<close>, it returns under every
  window \<open>w' \<le> w\<close> and every feed stale under \<open>w\<close> is stale under \<open>w'\<close>; the decision
  on one most recent fetch is monotonic in the same way.
\<close>

theorem staleness_monotonic_in_window:
  assumes le: "w' \<le> w"
    and run: "getFeedsToRefreshWithin w t db ids = (Inr a, db1)"
  shows
    "(\<exists>b. getFeedsToRefreshWithin w' t db ids = (Inr b, db1) \<and> set a \<subseteq> set b)
     \<and> (\<forall>m. needsRefresh w t m \<longrightarrow> needsRefresh w' t m)"
proof -
  obtain b where b: "getFeedsToRefreshWithin w' t db ids = (Inr b, db1)"
    using getFeedsToRefreshWithin_other_window [OF run] by blast
  have ca: "a = map RssFeed.id'
       (filter (\<lambda>f. RssFeed.id' f \<in> set ids \<and> staleUrl w t (rssFeed db) (RssFeed.url f)) (rssFeed db))"
    using getFeedsToRefreshWithin_Inr [OF run] by simp
  have cb: "b = map RssFeed.id'
       (filter (\<lambda>f. RssFeed.id' f \<in> set ids \<and> staleUrl w' t (rssFeed db) (RssFeed.url f)) (rssFeed db))"
    using getFeedsToRefreshWithin_Inr [OF b] by simp
  have sub: "set a \<subseteq> set b"
    unfolding ca cb using staleUrl_mono [OF le] by auto
  have nr: "\<forall>m. needsRefresh w t m \<longrightarrow> needsRefresh w' t m"
    using needsRefresh_mono [OF le] by blast
  show ?thesis using b sub nr by blast
qed

theorem staleness_monotonic_in_window_witness:
  "(30 * 60 * 1000 :: int) \<le> 3 * 60 * 60 * 1000
   \<and> getFeedsToRefreshWithin (3 * 60 * 60 * 1000) t0 twoFeeds [''F1'', ''F2''] = (Inr [], twoFeeds)
   \<and> (\<exists>b. getFeedsToRefreshWithin (30 * 60 * 1000) t0 twoFeeds [''F1'', ''F2''] = (Inr b, twoFeeds)
          \<and> set [] \<subseteq> set b)
   \<and> needsRefresh (3 * 60 * 60 * 1000) t0 (Some (Some (t0 - 4 * 60 * 60 * 1000)))
   \<and> needsRefresh (30 * 60 * 1000) t0 (Some (Some (t0 - 4 * 60 * 60 * 1000)))"
proof -
  have le: "(30 * 60 * 1000 :: int) \<le> 3 * 60 * 60 * 1000" by simp
  have f: "faults twoFeeds = []" by (simp add: twoFeeds_def)
  have tbl: "rssFeed twoFeeds = [feedF1, feedF2]" by (simp add: twoFeeds_def)
  obtain a where a: "getFeedsToRefreshWithin (3 * 60 * 60 * 1000) t0 twoFeeds [''F1'', ''F2''] = (Inr a, twoFeeds)"
    using getFeedsToRefreshWithin_no_fault [OF f] by blast
  have a0: "a = []"
    using getFeedsToRefreshWithin_Inr [OF a]
    by (simp add: twoFeeds_facts twoFeeds_stale)
  have run: "getFeedsToRefreshWithin (3 * 60 * 60 * 1000) t0 twoFeeds [''F1'', ''F2''] = (Inr [], twoFeeds)"
    using a a0 by simp
  have n: "needsRefresh (3 * 60 * 60 * 1000) t0 (Some (Some (t0 - 4 * 60 * 60 * 1000)))" by simp
  note T = staleness_monotonic_in_window [OF le run]
  have n': "needsRefresh (30 * 60 * 1000) t0 (Some (Some (t0 - 4 * 60 * 60 * 1000)))"
    by (rule T [THEN conjunct2, rule_format, OF n])
  show ?thesis using le run T [THEN conjunct1] n n' by blast
qed


section \<open>Properties of the windowed retrieval\<close>

lemma truncate_withSourceCount [simp]: "RssArticle.truncate (withSourceCount fs r) = r"
  by (simp add: withSourceCount_def RssArticle.defs ArticleWithSourceCount.defs)

lemma fields_withSourceCount [simp]:
  "RssArticle.pubDate (withSourceCount fs r) = RssArticle.pubDate r"
  "RssArticle.feedId (withSourceCount fs r) = RssArticle.feedId r"
  "sourceFeedIds (withSourceCount fs r) = sourceFeedIds r"
  by (simp_all add: withSourceCount_def RssArticle.defs ArticleWithSourceCount.defs)

lemma getArticlesByFeedsAndDateRange_Inr:
  assumes "getArticlesByFeedsAndDateRange db ids s e limit = (Inr res, db')"
  shows "res = map (withSourceCount (rssFeed db))
           (take (case limit of None \<Rightarrow> 100 | Some n \<Rightarrow> n)
              (orderByDesc RssArticle.pubDate
                 (filter (\<lambda>r. matchesFeeds ids r \<and> inWindow s e r) (rssArticle db))))
         \<and> rssFeed db' = rssFeed db \<and> rssArticle db' = rssArticle db
         \<and> faults db' = tl (faults db)"
proof -
  obtain q dbq where q: "query db = (q, dbq)" by (cases "query db")
  note qt = query_tables [OF q]
  show ?thesis
  proof (cases q)
    case None
    then show ?thesis
      using assms q qt
      by (auto simp: getArticlesByFeedsAndDateRange_def rssArticle_findMany_def
          wrapDatabaseOperation_def)
  next
    case (Some err)
    then show ?thesis
      using assms q
      by (simp add: getArticlesByFeedsAndDateRange_def rssArticle_findMany_def
          wrapDatabaseOperation_def)
  qed
qed


lemma getArticlesByFeedsAndDateRange_no_fault:
  "faults db = [] \<Longrightarrow> \<exists>res. getArticlesByFeedsAndDateRange db ids s e limit = (Inr res, db)"
  by (simp add: getArticlesByFeedsAndDateRange_def rssArticle_findMany_def
      wrapDatabaseOperation_def query_def)

lemma take_sorted_bound:
  assumes "sorted_wrt R xs" and "y \<in> set (drop n xs)" and "x \<in> set (take n xs)"
  shows "R x y"
proof -
  have "sorted_wrt R (take n xs @ drop n xs)" using assms(1) by simp
  then show ?thesis using assms(2,3) unfolding sorted_wrt_append by blast
qed

lemma stored_fields [simp]:
  "RssArticle.feedId (stored fid g srcs d) = fid"
  "RssArticle.pubDate (stored fid g srcs d) = d"
  "sourceFeedIds (stored fid g srcs d) = srcs"
  "RssArticle.guid (stored fid g srcs d) = g"
  by (simp_all add: stored_def createRow_def sighting_def)

text \<open>
  Claim C4. When the retrieval returns, it returns at most \<open>limit\<close> articles (100 when
  no limit is given), in non-increasing order of publish date. Every returned article
  is a stored article whose primary feed is requested or whose source set holds a
  requested feed, with a publish date in \<open>[startDate, endDate]\<close>, both ends included,
  and carries \<open>sourceCount\<close>, the length of its source set, duplicates counted. Every
  stored article that matches in this way is returned, unless the result is full and
  every returned article is at least as recent; when the matching articles are no more
  than the limit, the result holds exactly these.
\<close>

theorem getArticlesByFeedsAndDateRange_window:
  assumes run: "getArticlesByFeedsAndDateRange db ids s e limit = (Inr res, db')"
  shows
    "length res \<le> (case limit of None \<Rightarrow> 100 | Some n \<Rightarrow> n)
     \<and> sorted_wrt (\<lambda>a b. RssArticle.pubDate b \<le> RssArticle.pubDate a) res
     \<and> (\<forall>a \<in> set res.
           RssArticle.truncate a \<in> set (rssArticle db)
           \<and> (RssArticle.feedId a \<in> set ids \<or> set (sourceFeedIds a) \<inter> set ids \<noteq> {})
           \<and> s \<le> RssArticle.pubDate a \<and> RssArticle.pubDate a \<le> e
           \<and> sourceCount a = length (sourceFeedIds a))
     \<and> (\<forall>r \<in> set (rssArticle db).
           (RssArticle.feedId r \<in> set ids \<or> set (sourceFeedIds r) \<inter> set ids \<noteq> {})
           \<and> s \<le> RssArticle.pubDate r \<and> RssArticle.pubDate r \<le> e \<longrightarrow>
             r \<in> RssArticle.truncate ` set res
             \<or> (length res = (case limit of None \<Rightarrow> 100 | Some n \<Rightarrow> n)
                 \<and> (\<forall>a \<in> set res. RssArticle.pubDate r \<le> RssArticle.pubDate a)))
     \<and> (length (filter (\<lambda>r. (RssArticle.feedId r \<in> set ids
                                  \<or> set (sourceFeedIds r) \<inter> set ids \<noteq> {})
                               \<and> s \<le> RssArticle.pubDate r \<and> RssArticle.pubDate r \<le> e)
                   (rssArticle db))
            \<le> (case limit of None \<Rightarrow> 100 | Some n \<Rightarrow> n) \<longrightarrow>
          RssArticle.truncate ` set res =
            {r \<in> set (rssArticle db).
               (RssArticle.feedId r \<in> set ids \<or> set (sourceFeedIds r) \<inter> set ids \<noteq> {})
               \<and> s \<le> RssArticle.pubDate r \<and> RssArticle.pubDate r \<le> e})"
proof -
  define cap where "cap = (case limit of None \<Rightarrow> 100 | Some n \<Rightarrow> (n::nat))"
  define P where "P = (\<lambda>r :: RssArticle. (RssArticle.feedId r \<in> set ids \<or> set (sourceFeedIds r) \<inter> set ids \<noteq> {})
                          \<and> s \<le> RssArticle.pubDate r \<and> RssArticle.pubDate r \<le> e)"
  define F where "F = filter P (rssArticle db)"
  define S where "S = orderByDesc RssArticle.pubDate F"
  define T where "T = take cap S"
  have PP: "(\<lambda>r. matchesFeeds ids r \<and> inWindow s e r) = P"
    by (auto simp: P_def matchesFeeds_def inWindow_def)
  have res: "res = map (withSourceCount (rssFeed db)) T"
    using getArticlesByFeedsAndDateRange_Inr [OF run]
    unfolding T_def S_def F_def cap_def PP by simp
  have setS: "set S = set F" by (simp add: S_def)
  have lenS: "length S = length F" by (simp add: S_def)
  have sortS: "sorted_wrt (\<lambda>a b. RssArticle.pubDate b \<le> RssArticle.pubDate a) S"
    unfolding S_def by (rule sorted_orderByDesc)
  have subT: "set T \<subseteq> set F" unfolding T_def using set_take_subset [of cap S] setS by simp
  have img: "RssArticle.truncate ` set res = set T"
    unfolding res by (simp add: image_image)
  have p1: "length res \<le> cap" by (simp add: res T_def)
  have "sorted_wrt (\<lambda>a b. RssArticle.pubDate b \<le> RssArticle.pubDate a) T"
    unfolding T_def by (rule sorted_wrt_take [OF sortS])
  then have p2: "sorted_wrt (\<lambda>a b. RssArticle.pubDate b \<le> RssArticle.pubDate a) res"
    unfolding res by (simp add: sorted_wrt_map)
  have p3: "\<forall>a \<in> set res.
           RssArticle.truncate a \<in> set (rssArticle db)
           \<and> (RssArticle.feedId a \<in> set ids \<or> set (sourceFeedIds a) \<inter> set ids \<noteq> {})
           \<and> s \<le> RssArticle.pubDate a \<and> RssArticle.pubDate a \<le> e
           \<and> sourceCount a = length (sourceFeedIds a)"
  proof
    fix a assume "a \<in> set res"
    then obtain r where r: "r \<in> set T" and a: "a = withSourceCount (rssFeed db) r"
      unfolding res by auto
    have "r \<in> set F" using r subT by blast
    then have "r \<in> set (rssArticle db)" "P r" by (simp_all add: F_def)
    then show "RssArticle.truncate a \<in> set (rssArticle db)
           \<and> (RssArticle.feedId a \<in> set ids \<or> set (sourceFeedIds a) \<inter> set ids \<noteq> {})
           \<and> s \<le> RssArticle.pubDate a \<and> RssArticle.pubDate a \<le> e
           \<and> sourceCount a = length (sourceFeedIds a)"
      unfolding a by (simp add: P_def sourceCount_withSourceCount)
  qed
  have p4: "\<forall>r \<in> set (rssArticle db). P r \<longrightarrow>
             r \<in> RssArticle.truncate ` set res
             \<or> (length res = cap \<and> (\<forall>a \<in> set res. RssArticle.pubDate r \<le> RssArticle.pubDate a))"
  proof (intro ballI impI)
    fix r assume "r \<in> set (rssArticle db)" "P r"
    then have "r \<in> set S" by (simp add: setS F_def)
    then have "r \<in> set (take cap S) \<or> r \<in> set (drop cap S)"
      using append_take_drop_id [of cap S] by (metis Un_iff set_append)
    then show "r \<in> RssArticle.truncate ` set res
             \<or> (length res = cap \<and> (\<forall>a \<in> set res. RssArticle.pubDate r \<le> RssArticle.pubDate a))"
    proof
      assume "r \<in> set (take cap S)"
      then show ?thesis unfolding img T_def by simp
    next
      assume d: "r \<in> set (drop cap S)"
      then have "drop cap S \<noteq> []" by auto
      then have "cap < length S" by simp
      then have l: "length res = cap" by (simp add: res T_def)
      have "\<forall>a \<in> set res. RssArticle.pubDate r \<le> RssArticle.pubDate a"
      proof
        fix a assume "a \<in> set res"
        then obtain x where x: "x \<in> set (take cap S)" and a: "a = withSourceCount (rssFeed db) x"
          unfolding res T_def by auto
        from take_sorted_bound [OF sortS d x] show "RssArticle.pubDate r \<le> RssArticle.pubDate a"
          unfolding a by simp
      qed
      then show ?thesis using l by blast
    qed
  qed
  have p5: "length F \<le> cap \<longrightarrow> RssArticle.truncate ` set res = {r \<in> set (rssArticle db). P r}"
  proof
    assume "length F \<le> cap"
    then have "T = S" by (simp add: T_def lenS)
    then show "RssArticle.truncate ` set res = {r \<in> set (rssArticle db). P r}"
      unfolding img by (simp add: setS F_def)
  qed
  show ?thesis
    using p1 p2 p3 p4 p5 unfolding cap_def P_def F_def by (intro conjI)
qed

theorem getArticlesByFeedsAndDateRange_window_witness:
  "\<exists>res.
     getArticlesByFeedsAndDateRange fourArticles [''F1''] 100 300 (Some 10) = (Inr res, fourArticles)
     \<and> map RssArticle.truncate res =
         [stored ''F3'' ''guid-b'' [''F3'', ''F1'', ''F1''] 300, stored ''F1'' ''guid-a'' [''F1''] 100]
     \<and> map sourceCount res = [3, 1]
     \<and> length res \<le> 10
     \<and> sorted_wrt (\<lambda>a b. RssArticle.pubDate b \<le> RssArticle.pubDate a) res"
proof -
  let ?a = "stored ''F1'' ''guid-a'' [''F1''] 100"
  let ?b = "stored ''F3'' ''guid-b'' [''F3'', ''F1'', ''F1''] 300"
  let ?res = "[withSourceCount [] ?b, withSourceCount [] ?a]"
  have f: "faults fourArticles = []" by (simp add: fourArticles_def)
  have tbl: "rssArticle fourArticles =
      [?a, ?b, stored ''F3'' ''guid-c'' [''F3''] 200, stored ''F1'' ''guid-d'' [''F1''] 900]"
    and fs: "rssFeed fourArticles = []"
    by (simp_all add: fourArticles_def)
  have F: "filter (\<lambda>r. matchesFeeds [''F1''] r \<and> inWindow 100 300 r) (rssArticle fourArticles)
             = [?a, ?b]"
    unfolding tbl by (simp add: matchesFeeds_def inWindow_def)
  have S: "orderByDesc RssArticle.pubDate [?a, ?b] = [?b, ?a]"
    by (simp add: orderByDesc_def)
  obtain res where r0: "getArticlesByFeedsAndDateRange fourArticles [''F1''] 100 300 (Some 10)
               = (Inr res, fourArticles)"
    using getArticlesByFeedsAndDateRange_no_fault [OF f] by blast
  have "res = ?res"
    using getArticlesByFeedsAndDateRange_Inr [OF r0] unfolding F S fs by simp
  then have run: "getArticlesByFeedsAndDateRange fourArticles [''F1''] 100 300 (Some 10)
               = (Inr ?res, fourArticles)"
    using r0 by simp
  note T = getArticlesByFeedsAndDateRange_window [OF run]
  have l: "length ?res \<le> 10" using T [THEN conjunct1] by simp
  have s: "sorted_wrt (\<lambda>a b. RssArticle.pubDate b \<le> RssArticle.pubDate a) ?res"
    by (rule T [THEN conjunct2, THEN conjunct1])
  have c: "\<forall>a \<in> set ?res. sourceCount a = length (sourceFeedIds a)"
    using T [THEN conjunct2, THEN conjunct2, THEN conjunct1] by blast
  have sc: "map sourceCount ?res = [3, 1]" using c by simp
  have tr: "map RssArticle.truncate ?res = [?b, ?a]" by simp
  show ?thesis
    by (rule exI [of _ ?res]) (rule conjI [OF run conjI [OF tr conjI [OF sc conjI [OF l s]]]])
qed


section \<open>Properties of the refresh step and of the pipeline\<close>






lemma bulkLoop_Cons:
  "bulkLoop db (a # rest) results =
     (case bulkLoop db [a] results of (results', db') \<Rightarrow> bulkLoop db' rest results')"
  using bulkLoop_append [of db "[a]" rest results] by simp

lemma complete_step:
  "complete ev db t = (case step ev db t of (t', db') \<Rightarrow> complete ev db' t')"
  by (cases t) simp_all

declare complete.simps [simp del]

lemma complete_Store:
  "complete ev db (Store fid parsed rest results) =
     (case bulkLoop db rest results of
        (results', db') \<Rightarrow>
          (case updateFeedLastFetched ev db' fid of
             (Inl e, db'') \<Rightarrow> (Rejected (fetchFailed e), db'')
           | (Inr u, db'') \<Rightarrow>
               (Fulfilled (BulkOperationResult.extend results'
                             \<lparr> StoreResult.metadata = ParsedFeed.metadata parsed \<rparr>), db'')))"
proof (induction rest arbitrary: db results)
  case Nil
  show ?case
    by (subst complete_step) (simp add: complete.simps(1) split: prod.splits sum.splits)
next
  case (Cons a rest)
  obtain r1 db1 where b: "bulkLoop db [a] results = (r1, db1)"
    by (cases "bulkLoop db [a] results")
  have "complete ev db (Store fid parsed (a # rest) results) = complete ev db1 (Store fid parsed rest r1)"
    by (subst complete_step) (simp add: b del: bulkLoop.simps)
  also have "\<dots> = (case bulkLoop db1 rest r1 of
        (results', db') \<Rightarrow>
          (case updateFeedLastFetched ev db' fid of
             (Inl e, db'') \<Rightarrow> (Rejected (fetchFailed e), db'')
           | (Inr u, db'') \<Rightarrow>
               (Fulfilled (BulkOperationResult.extend results'
                             \<lparr> StoreResult.metadata = ParsedFeed.metadata parsed \<rparr>), db'')))"
    by (rule Cons.IH)
  also have "bulkLoop db1 rest r1 = bulkLoop db (a # rest) results"
    unfolding bulkLoop_Cons [of db a rest results] b by simp
  finally show ?case .
qed



lemma run_settled:
  "run ev db ts sched = (ts', db') \<Longrightarrow> k < length ts \<Longrightarrow> ts ! k = Settled r \<Longrightarrow>
     ts' ! k = Settled r"
proof (induction sched arbitrary: db ts)
  case Nil
  then show ?case by simp
next
  case (Cons i sched)
  show ?case
  proof (cases "i < length ts")
    case True
    obtain t' db1 where s: "step ev db (ts ! i) = (t', db1)" by (cases "step ev db (ts ! i)")
    have r: "run ev db1 (ts[i := t']) sched = (ts', db')" using Cons.prems(1) True s by simp
    have "(ts[i := t']) ! k = Settled r"
    proof (cases "i = k")
      case True
      then have "t' = Settled r" using s Cons.prems(3) by simp
      then show ?thesis using True Cons.prems(2) by simp
    next
      case False
      then show ?thesis using Cons.prems(3) by simp
    qed
    moreover have "k < length (ts[i := t'])" using Cons.prems(2) by simp
    ultimately show ?thesis using Cons.IH [OF r] by blast
  next
    case False
    then show ?thesis using Cons by simp
  qed
qed







lemma bulkLoop_rssFeed:
  "bulkLoop db xs acc = (res, db') \<Longrightarrow> rssFeed db' = rssFeed db"
proof (induction xs arbitrary: db acc)
  case Nil
  then show ?case by simp
next
  case (Cons x xs)
  obtain r db1 where c: "createRssArticle db x = (r, db1)" by (cases "createRssArticle db x")
  have f: "rssFeed db1 = rssFeed db"
  proof (cases r)
    case (Inl e)
    then show ?thesis using c createRssArticle_Inl by blast
  next
    case (Inr v)
    then show ?thesis using c createRssArticle_Inr by blast
  qed
  show ?case
  proof (cases r)
    case (Inl e)
    then show ?thesis using Cons.prems c f Cons.IH by (auto split: if_splits)
  next
    case (Inr v)
    then show ?thesis using Cons.prems c f Cons.IH by auto
  qed
qed

lemma rssFeed_findUnique_no_fault:
  "faults db = [] \<Longrightarrow>
     rssFeed_findUnique db i = (Inr (find (\<lambda>f. RssFeed.id' f = i) (rssFeed db)), db)"
  by (simp add: rssFeed_findUnique_def query_def)


lemma step_Lookup_inactive:
  assumes "faults db = []" and "find (\<lambda>f. RssFeed.id' f = fid) (rssFeed db) = Some fd"
    and "\<not> isActive fd"
  shows "step ev db (Lookup fid) =
           (Settled (Rejected (fetchFailed (Error (''Feed '' @ fid @ '' is not active'')))), db)"
  using assms by (simp add: rssFeed_findUnique_no_fault)


lemma step_Parse_delivers:
  assumes "parseURL ev (RssFeed.url fd) = Inr doc"
  shows "step ev db (Parse fid fd) =
           (Store fid \<lparr> ParsedFeed.metadata = extractFeedMetadata doc,
                         articles = extractArticles ev doc fid, itemCount = length (items doc) \<rparr>
              (map (toCreateData (RssFeed.id' fd)) (extractArticles ev doc fid))
              \<lparr>created = 0, skipped = 0, errors = 0\<rparr>, db)"
  using assms by (simp add: fetchAndParseFeed_def parseFeedUrl_def)

lemma complete_Store_succeeds:
  assumes f: "faults db = []" and fd: "find (\<lambda>f. RssFeed.id' f = fid) (rssFeed db) = Some fd"
  shows "\<exists>r db'. complete ev db (Store fid parsed rest results) = (Fulfilled r, db')"
proof -
  obtain res db2 where b: "bulkLoop db rest results = (res, db2)"
    by (cases "bulkLoop db rest results")
  have f2: "faults db2 = []" using bulkLoop_no_fault [OF f b] by simp
  have t2: "rssFeed db2 = rssFeed db" using bulkLoop_rssFeed [OF b] .
  have "\<exists>db3. updateFeedLastFetched ev db2 fid = (Inr (), db3)"
    using f2 fd t2 by (simp add: updateFeedLastFetched_def query_def)
  then show ?thesis unfolding complete_Store b by auto
qed



































end
